theory Spec2Isabelle
  imports
    Main
    "HOL-Library.AList"
    "HOL-Library.Char_ord"
    "HOL-Library.List_Lexorder"
    "HOL-Library.Product_Lexorder"
begin

section \<open>The item-set identifier fixer: data model\<close>

text \<open>
  This theory embeds \<^verbatim>\<open>update_riot_itemset_ids.py\<close>: the embedded identifier
  table, the shallow JSON walk \<^verbatim>\<open>replace_ids_in_itemset\<close>, the per-file processor
  \<^verbatim>\<open>process_file\<close>, the orchestrator \<^verbatim>\<open>run_fix\<close> and the report builder
  \<^verbatim>\<open>flatten_changes\<close>.

  Conventions of the embedding.
  \<^item> A Python \<^verbatim>\<open>str\<close> is a \<^typ>\<open>string\<close> holding its UTF-8 bytes. Bytewise
    lexicographic order on UTF-8 is code-point order, which is how Python compares
    strings, so the order on \<^typ>\<open>string\<close> (from \<^verbatim>\<open>List_Lexorder\<close> and
    \<^verbatim>\<open>Char_ord\<close>) is Python's.
  \<^item> A Python \<^verbatim>\<open>int\<close> is an \<^typ>\<open>int\<close>.
  \<^item> A Python \<^verbatim>\<open>dict\<close> that is iterated is an association list in insertion order;
    \<^verbatim>\<open>d.get(k)\<close> is \<^const>\<open>map_of\<close> and \<^verbatim>\<open>d[k] = v\<close> is \<^const>\<open>AList.update\<close>
    (replace in place, or append a new key at the end). A real dictionary has distinct
    keys. A mapping that is only looked up is a map \<open>'k \<rightharpoonup> 'v\<close>.
  \<^item> A value produced by \<^verbatim>\<open>json.load\<close> is a tree (no two places share an object), so
    the in-place mutation of the source is modelled by rebuilding the value.
\<close>

subsection \<open>JSON values\<close>

text \<open>
  What \<^verbatim>\<open>json.load\<close> returns. A float is never computed with by the program, only
  converted with \<^verbatim>\<open>str\<close> and written back, so it is carried as its \<^verbatim>\<open>repr\<close>.
\<close>

datatype json =
    JNull
  | JBool bool
  | JInt int
  | JFloat string
  | JString string
  | JArray "json list"
  | JObject "(string \<times> json) list"

subsection \<open>Identifier entries and the embedded table\<close>

record ItemInfo =
  old_id :: string
  new_id :: string
  name_es :: string
  name_en :: string

definition EMBEDDED_ITEM_MAP :: "(string \<times> ItemInfo) list" where
  "EMBEDDED_ITEM_MAP = [
    (''2065'', \<lparr>old_id = ''2065'', new_id = ''322065'',
       name_es = ''Canci'' @ [CHR 0xC3, CHR 0xB3] @ ''n de batalla de Shurelya'',
       name_en = ''Shurelya's Battlesong''\<rparr>),
    (''3002'', \<lparr>old_id = ''3002'', new_id = ''323002'',
       name_es = ''Marcasendas'',
       name_en = ''Trailblazer''\<rparr>),
    (''3003'', \<lparr>old_id = ''3003'', new_id = ''323003'',
       name_es = ''Bast'' @ [CHR 0xC3, CHR 0xB3] @ ''n del arc'' @ [CHR 0xC3, CHR 0xA1] @ ''ngel'',
       name_en = ''Archangel's Staff''\<rparr>),
    (''3004'', \<lparr>old_id = ''3004'', new_id = ''323004'',
       name_es = ''Manamune'',
       name_en = ''Manamune''\<rparr>),
    (''3050'', \<lparr>old_id = ''3050'', new_id = ''323050'',
       name_es = ''Convergencia de Zeke'',
       name_en = ''Zeke's Convergence''\<rparr>),
    (''3075'', \<lparr>old_id = ''3075'', new_id = ''323075'',
       name_es = ''Malla de espinas'',
       name_en = ''Thornmail''\<rparr>),
    (''3107'', \<lparr>old_id = ''3107'', new_id = ''323107'',
       name_es = ''Redenci'' @ [CHR 0xC3, CHR 0xB3] @ ''n'',
       name_en = ''Redemption''\<rparr>),
    (''3109'', \<lparr>old_id = ''3109'', new_id = ''323109'',
       name_es = ''Promesa de caballero'',
       name_en = ''Knight's Vow''\<rparr>),
    (''3110'', \<lparr>old_id = ''3110'', new_id = ''323110'',
       name_es = ''Coraz'' @ [CHR 0xC3, CHR 0xB3] @ ''n de hielo'',
       name_en = ''Frozen Heart''\<rparr>),
    (''3119'', \<lparr>old_id = ''3119'', new_id = ''323119'',
       name_es = ''Llegada del invierno'',
       name_en = ''Winter's Approach''\<rparr>),
    (''3190'', \<lparr>old_id = ''3190'', new_id = ''323190'',
       name_es = ''Medall'' @ [CHR 0xC3, CHR 0xB3] @ ''n de los Solari de Hierro'',
       name_en = ''Locket of the Iron Solari''\<rparr>),
    (''3222'', \<lparr>old_id = ''3222'', new_id = ''323222'',
       name_es = ''Bendici'' @ [CHR 0xC3, CHR 0xB3] @ ''n de Mikael'',
       name_en = ''Mikael's Blessing''\<rparr>),
    (''3504'', \<lparr>old_id = ''3504'', new_id = ''323504'',
       name_es = ''Incensario ardiente'',
       name_en = ''Ardent Censer''\<rparr>),
    (''4005'', \<lparr>old_id = ''4005'', new_id = ''324005'',
       name_es = ''Mandato imperial'',
       name_en = ''Imperial Mandate''\<rparr>),
    (''6616'', \<lparr>old_id = ''6616'', new_id = ''326616'',
       name_es = ''Bast'' @ [CHR 0xC3, CHR 0xB3] @ ''n de aguas fluidas'',
       name_en = ''Staff of Flowing Water''\<rparr>),
    (''6617'', \<lparr>old_id = ''6617'', new_id = ''326617'',
       name_es = ''Renovaci'' @ [CHR 0xC3, CHR 0xB3] @ ''n de piedra lunar'',
       name_en = ''Moonstone Renewer''\<rparr>),
    (''6620'', \<lparr>old_id = ''6620'', new_id = ''326620'',
       name_es = ''Ecos de Helia'',
       name_en = ''Echoes of Helia''\<rparr>),
    (''6621'', \<lparr>old_id = ''6621'', new_id = ''326621'',
       name_es = ''N'' @ [CHR 0xC3, CHR 0xBA] @ ''cleo albar'',
       name_en = ''Dawncore''\<rparr>),
    (''6657'', \<lparr>old_id = ''6657'', new_id = ''326657'',
       name_es = ''Vara de las edades'',
       name_en = ''Rod of Ages''\<rparr>),
    (''8020'', \<lparr>old_id = ''8020'', new_id = ''328020'',
       name_es = ''M'' @ [CHR 0xC3, CHR 0xA1] @ ''scara abisal'',
       name_en = ''Abyssal Mask''\<rparr>)
  ]"

definition build_maps :: "(string \<rightharpoonup> string) \<times> (string \<rightharpoonup> ItemInfo)" where
  "build_maps =
     (map_of (map (\<lambda>(k, info). (k, new_id info)) EMBEDDED_ITEM_MAP),
      map_of EMBEDDED_ITEM_MAP)"

subsection \<open>Run statistics, summary rows, run result\<close>

record RunStats =
  files_scanned :: int
  files_candidate_sr :: int
  files_modified :: int
  ids_replaced :: int

text \<open>
  The fields of \<^verbatim>\<open>ChangeSummary\<close> carry the prefix \<open>row_\<close> where the source reuses
  the field names of \<^verbatim>\<open>ItemInfo\<close>.
\<close>

record ChangeSummary =
  champion :: string
  row_old_id :: string
  row_new_id :: string
  row_name_es :: string
  row_name_en :: string
  count :: int

type_synonym path = "string list"

text \<open>The change ledger: champion \<open>\<rightarrow>\<close> old identifier \<open>\<rightarrow>\<close> count, both levels in insertion order.\<close>

type_synonym ledger = "(string \<times> (string \<times> int) list) list"

record RunResult =
  stats :: RunStats
  changes :: ledger
  modified_files :: "path list"
  warnings :: "string list"
  root :: path
  map_code :: string
  champions_detected :: "string list"

subsection \<open>The file system and the library\<close>

text \<open>
  A path is the list of its parts. A file has its text and whether it can be opened for
  reading and for writing (a directory that matches the glob is a file that cannot be
  read). The file system also says where a new file may be created and, in \<open>room\<close>, how
  much text a path can take: with \<open>room fs p = Some n\<close> a write to \<open>p\<close> fails with an
  \<^verbatim>\<open>OSError\<close> once \<open>n\<close> characters are written, and these stay in the file; with
  \<open>None\<close> the whole text is written. The log \<open>oplog\<close> has, in order, a \<open>Write p\<close> for
  every time \<open>p\<close> was opened for writing, which empties it, and a \<open>Copy src dst\<close> for
  every time a copy opened its destination. Two different paths are two different files
  (no links), and nothing but the program changes the files.
\<close>

datatype oserror = FileNotFoundError | PermissionError | NoSpaceError

record file_entry =
  content :: string
  readable :: bool
  writable :: bool

datatype fs_op = Copy path path | Write path

record filesystem =
  files :: "path \<rightharpoonup> file_entry"
  may_create :: "path \<Rightarrow> bool"
  room :: "path \<Rightarrow> nat option"
  oplog :: "fs_op list"

text \<open>
  What the program takes from Python and its standard library and does not define.
  \<^item> The JSON parser: \<open>Loads v\<close> when \<^verbatim>\<open>json.load\<close> returns \<open>v\<close>; \<open>JSONDecodeError msg\<close>
    when it raises that error with the text \<open>msg\<close>; \<open>LoadRaises\<close> when it raises
    anything else (\<^verbatim>\<open>UnicodeDecodeError\<close> on bytes that are not UTF-8, \<^verbatim>\<open>ValueError\<close>
    on an integer with too many digits, \<^verbatim>\<open>RecursionError\<close> on deep nesting), which
    \<^verbatim>\<open>process_file\<close> does not catch.
  \<^item> The JSON serialiser, with \<^verbatim>\<open>ensure_ascii=False\<close> and compact separators:
    \<open>Dumps s\<close> when the value is written as the text \<open>s\<close>; \<open>DumpRaises s\<close> when
    \<open>s\<close> is written and the next piece cannot be encoded (\<^verbatim>\<open>UnicodeEncodeError\<close> on a
    lone surrogate), which \<^verbatim>\<open>process_file\<close> does not catch either.
  \<^item> \<^verbatim>\<open>str\<close> of a list or a dictionary, the text of an \<^verbatim>\<open>OSError\<close>, the text of a
    path, \<^verbatim>\<open>str.casefold\<close>, and the order in which a set of strings is iterated, given
    the order in which they were added (it depends on the hash seed of the process).
  Every theorem below holds for each choice of them.
\<close>

datatype loaded = Loads json | JSONDecodeError string | LoadRaises

datatype dumped = Dumps string | DumpRaises string

record pyenv =
  json_loads :: "string \<Rightarrow> loaded"
  json_dumps :: "json \<Rightarrow> dumped"
  py_repr :: "json \<Rightarrow> string"
  os_strerror :: "oserror \<Rightarrow> path \<Rightarrow> string"
  path_str :: "path \<Rightarrow> string"
  casefold :: "string \<Rightarrow> string"
  set_order :: "string list \<Rightarrow> string list"

definition path_exists :: "filesystem \<Rightarrow> path \<Rightarrow> bool" where
  "path_exists fs p = (files fs p \<noteq> None)"

definition read_text :: "filesystem \<Rightarrow> path \<Rightarrow> oserror + string" where
  "read_text fs p =
     (case files fs p of
        None \<Rightarrow> Inl FileNotFoundError
      | Some f \<Rightarrow> if readable f then Inr (content f) else Inl PermissionError)"

text \<open>Whether a text can be written to a path in full, and what of it reaches the file.\<close>

definition fits :: "filesystem \<Rightarrow> path \<Rightarrow> string \<Rightarrow> bool" where
  "fits fs p s = (case room fs p of None \<Rightarrow> True | Some n \<Rightarrow> length s \<le> n)"

definition written :: "filesystem \<Rightarrow> path \<Rightarrow> string \<Rightarrow> string" where
  "written fs p s = (case room fs p of None \<Rightarrow> s | Some n \<Rightarrow> take n s)"

text \<open>
  \<^verbatim>\<open>path.open("w")\<close>: fails before anything is changed, or leaves the file empty (a new
  file if there was none).
\<close>

definition open_w :: "filesystem \<Rightarrow> path \<Rightarrow> oserror + filesystem" where
  "open_w fs p =
     (case files fs p of
        None \<Rightarrow>
          if may_create fs p
          then Inr (fs\<lparr>files := (files fs)(p \<mapsto> \<lparr>content = [], readable = True, writable = True\<rparr>),
                       oplog := oplog fs @ [Write p]\<rparr>)
          else Inl PermissionError
      | Some f \<Rightarrow>
          if writable f
          then Inr (fs\<lparr>files := (files fs)(p \<mapsto> f\<lparr>content := []\<rparr>),
                       oplog := oplog fs @ [Write p]\<rparr>)
          else Inl PermissionError)"

definition set_content :: "filesystem \<Rightarrow> path \<Rightarrow> string \<Rightarrow> filesystem" where
  "set_content fs p s =
     fs\<lparr>files := (files fs)(p := map_option (\<lambda>f. f\<lparr>content := s\<rparr>) (files fs p))\<rparr>"

text \<open>
  \<^verbatim>\<open>_json_dump_minified\<close>: the file is opened for writing and the serialiser writes into
  it. The call returns, or raises an \<^verbatim>\<open>OSError\<close> (the file cannot be opened, and is then
  as it was; or the text does not fit, and the file keeps what was written), or raises
  the serialiser's own error with the file holding what was written before it.
\<close>

datatype dump_result =
    Dumped filesystem
  | DumpOSError oserror filesystem
  | DumpRaised filesystem

definition json_dump_minified :: "pyenv \<Rightarrow> filesystem \<Rightarrow> json \<Rightarrow> path \<Rightarrow> dump_result" where
  "json_dump_minified env fs obj p =
     (case open_w fs p of
        Inl e \<Rightarrow> DumpOSError e fs
      | Inr fs1 \<Rightarrow>
          (case json_dumps env obj of
             Dumps s \<Rightarrow>
               if fits fs p s then Dumped (set_content fs1 p s)
               else DumpOSError NoSpaceError (set_content fs1 p (written fs p s))
           | DumpRaises s \<Rightarrow>
               if fits fs p s then DumpRaised (set_content fs1 p s)
               else DumpOSError NoSpaceError (set_content fs1 p (written fs p s))))"

text \<open>
  \<^verbatim>\<open>shutil.copy2\<close>: fails before anything is changed (the source cannot be read, the
  destination cannot be opened); or copies the text and the permissions of the source to
  the destination; or fails when the text does not fit, and the destination keeps what
  was written. The first component of the result is the \<^verbatim>\<open>OSError\<close> raised, if any.
\<close>

definition copy2 :: "filesystem \<Rightarrow> path \<Rightarrow> path \<Rightarrow> oserror option \<times> filesystem" where
  "copy2 fs src dst =
     (case files fs src of
        None \<Rightarrow> (Some FileNotFoundError, fs)
      | Some f \<Rightarrow>
          if \<not> readable f then (Some PermissionError, fs)
          else if \<not> (case files fs dst of None \<Rightarrow> may_create fs dst | Some g \<Rightarrow> writable g)
          then (Some PermissionError, fs)
          else if fits fs dst (content f)
          then (None, fs\<lparr>files := (files fs)(dst \<mapsto> f), oplog := oplog fs @ [Copy src dst]\<rparr>)
          else (Some NoSpaceError,
                fs\<lparr>files := (files fs)(dst \<mapsto>
                       (case files fs dst of
                          None \<Rightarrow> \<lparr>content = [], readable = True, writable = True\<rparr>
                        | Some g \<Rightarrow> g)\<lparr>content := written fs dst (content f)\<rparr>),
                   oplog := oplog fs @ [Copy src dst]\<rparr>))"

subsection \<open>Paths\<close>

text \<open>
  \<^verbatim>\<open>path.with_suffix(path.suffix + ".bak")\<close> replaces the suffix of the last part by
  itself followed by \<^verbatim>\<open>.bak\<close>, which appends \<^verbatim>\<open>.bak\<close> to the last part whatever the
  suffix is. A path with no name makes \<^verbatim>\<open>with_suffix\<close> raise; such a path is no file
  and the call is reached only after the file was read.
\<close>

definition backup_path :: "path \<Rightarrow> path" where
  "backup_path p =
     (case rev p of
        [] \<Rightarrow> [''.bak'']
      | n # ps \<Rightarrow> rev ps @ [n @ ''.bak''])"

fun relative_to :: "path \<Rightarrow> path \<Rightarrow> path option" where
  "relative_to p [] = Some p"
| "relative_to [] (r # rs) = None"
| "relative_to (x # xs) (r # rs) = (if x = r then relative_to xs rs else None)"

definition path_name :: "path \<Rightarrow> string" where
  "path_name p = (case rev p of [] \<Rightarrow> [] | n # ps \<Rightarrow> n)"

definition path_parent :: "path \<Rightarrow> path" where
  "path_parent p = butlast p"

definition champion_name_from_path :: "path \<Rightarrow> path \<Rightarrow> string" where
  "champion_name_from_path root_dir json_path =
     (case relative_to json_path root_dir of
        Some (c # rest) \<Rightarrow> c
      | Some [] \<Rightarrow> path_name (path_parent (path_parent json_path))
      | None \<Rightarrow> path_name (path_parent (path_parent json_path)))"

section \<open>The JSON walk\<close>

subsection \<open>\<^verbatim>\<open>str\<close> of a JSON value\<close>

definition digit_char :: "nat \<Rightarrow> char" where
  "digit_char d = ''0123456789'' ! d"

fun digits :: "nat \<Rightarrow> string" where
  "digits n = (if n < 10 then [digit_char n] else digits (n div 10) @ [digit_char (n mod 10)])"

declare digits.simps [simp del]

definition str_int :: "int \<Rightarrow> string" where
  "str_int i = (if i < 0 then CHR ''-'' # digits (nat (- i)) else digits (nat i))"

definition py_str :: "pyenv \<Rightarrow> json \<Rightarrow> string" where
  "py_str env v =
     (case v of
        JNull \<Rightarrow> ''None''
      | JBool b \<Rightarrow> (if b then ''True'' else ''False'')
      | JInt i \<Rightarrow> str_int i
      | JFloat r \<Rightarrow> r
      | JString s \<Rightarrow> s
      | JArray xs \<Rightarrow> py_repr env v
      | JObject kvs \<Rightarrow> py_repr env v)"

subsection \<open>\<^verbatim>\<open>replace_ids_in_itemset\<close>\<close>

text \<open>
  \<^verbatim>\<open>champ_items = changes.setdefault(champion, {});
  champ_items[item_id] = champ_items.get(item_id, 0) + 1\<close>
\<close>

definition ledger_bump :: "string \<Rightarrow> string \<Rightarrow> ledger \<Rightarrow> ledger" where
  "ledger_bump champ item_id chg =
     (let champ_items = (case map_of chg champ of None \<Rightarrow> [] | Some m \<Rightarrow> m);
          c = (case map_of champ_items item_id of None \<Rightarrow> 0 | Some n \<Rightarrow> n)
      in AList.update champ (AList.update item_id (c + 1) champ_items) chg)"

text \<open>
  The body of the inner loop, on one element of an \<^verbatim>\<open>items\<close> list. The accumulator is
  the replacement counter and the ledger.
\<close>

definition replace_item ::
  "pyenv \<Rightarrow> (string \<rightharpoonup> string) \<Rightarrow> string \<Rightarrow> json \<Rightarrow> int \<times> ledger \<Rightarrow> json \<times> int \<times> ledger" where
  "replace_item env id_map champ item acc =
     (case item of
        JObject kvs \<Rightarrow>
          (case map_of kvs ''id'' of
             None \<Rightarrow> (item, acc)
           | Some raw_id \<Rightarrow>
               if raw_id = JNull then (item, acc)
               else
                 (let item_id = py_str env raw_id in
                  case id_map item_id of
                    None \<Rightarrow> (item, acc)
                  | Some new \<Rightarrow>
                      if new \<noteq> [] \<and> new \<noteq> item_id
                      then (JObject (AList.update ''id'' (JString new) kvs),
                            fst acc + 1, ledger_bump champ item_id (snd acc))
                      else (item, acc)))
      | _ \<Rightarrow> (item, acc))"

fun replace_items ::
  "pyenv \<Rightarrow> (string \<rightharpoonup> string) \<Rightarrow> string \<Rightarrow> json list \<Rightarrow> int \<times> ledger
     \<Rightarrow> json list \<times> int \<times> ledger" where
  "replace_items env id_map champ [] acc = ([], acc)"
| "replace_items env id_map champ (item # items) acc =
     (case replace_item env id_map champ item acc of
        (item', acc') \<Rightarrow>
          (case replace_items env id_map champ items acc' of
             (items', acc'') \<Rightarrow> (item' # items', acc'')))"

text \<open>The body of the outer loop, on one element of the \<^verbatim>\<open>blocks\<close> list.\<close>

definition replace_block ::
  "pyenv \<Rightarrow> (string \<rightharpoonup> string) \<Rightarrow> string \<Rightarrow> json \<Rightarrow> int \<times> ledger \<Rightarrow> json \<times> int \<times> ledger" where
  "replace_block env id_map champ block acc =
     (case block of
        JObject kvs \<Rightarrow>
          (case map_of kvs ''items'' of
             Some (JArray items) \<Rightarrow>
               (case replace_items env id_map champ items acc of
                  (items', acc') \<Rightarrow> (JObject (AList.update ''items'' (JArray items') kvs), acc'))
           | _ \<Rightarrow> (block, acc))
      | _ \<Rightarrow> (block, acc))"

fun replace_blocks ::
  "pyenv \<Rightarrow> (string \<rightharpoonup> string) \<Rightarrow> string \<Rightarrow> json list \<Rightarrow> int \<times> ledger
     \<Rightarrow> json list \<times> int \<times> ledger" where
  "replace_blocks env id_map champ [] acc = ([], acc)"
| "replace_blocks env id_map champ (block # blocks) acc =
     (case replace_block env id_map champ block acc of
        (block', acc') \<Rightarrow>
          (case replace_blocks env id_map champ blocks acc' of
             (blocks', acc'') \<Rightarrow> (block' # blocks', acc'')))"

definition replace_ids_in_itemset ::
  "pyenv \<Rightarrow> json \<Rightarrow> (string \<rightharpoonup> string) \<Rightarrow> ledger \<Rightarrow> string \<Rightarrow> json \<times> int \<times> ledger" where
  "replace_ids_in_itemset env obj id_map chg champ =
     (case obj of
        JObject kvs \<Rightarrow>
          (case map_of kvs ''blocks'' of
             Some (JArray blocks) \<Rightarrow>
               (case replace_blocks env id_map champ blocks (0, chg) of
                  (blocks', replacements, chg') \<Rightarrow>
                    (JObject (AList.update ''blocks'' (JArray blocks') kvs), replacements, chg'))
           | _ \<Rightarrow> (obj, 0, chg))
      | _ \<Rightarrow> (obj, 0, chg))"

section \<open>The per-file processor\<close>

text \<open>
  \<^verbatim>\<open>process_file\<close> returns its triple, or \<open>None\<close> when an exception that it does not
  catch leaves it, together with the file system and the ledger as it leaves them: the
  ledger is updated by the walk before anything is written, so it keeps the counts of a
  file whose backup or write then fails.
\<close>

definition process_file ::
  "pyenv \<Rightarrow> filesystem \<Rightarrow> path \<Rightarrow> path \<Rightarrow> (string \<rightharpoonup> string) \<Rightarrow> ledger \<Rightarrow> bool \<Rightarrow> bool \<Rightarrow> string
     \<Rightarrow> (bool \<times> int \<times> string) option \<times> filesystem \<times> ledger" where
  "process_file env fs json_path root_dir id_map chg apply_changes backup mc =
     (case read_text fs json_path of
        Inl e \<Rightarrow> (Some (False, 0, ''I/O error: '' @ os_strerror env e json_path), fs, chg)
      | Inr body \<Rightarrow>
          (case json_loads env body of
             LoadRaises \<Rightarrow> (None, fs, chg)
           | JSONDecodeError msg \<Rightarrow> (Some (False, 0, ''Invalid JSON: '' @ msg), fs, chg)
           | Loads obj \<Rightarrow>
               (case obj of
                  JObject kvs \<Rightarrow>
                    if map_of kvs ''map'' \<noteq> Some (JString mc) then (Some (False, 0, []), fs, chg)
                    else
                      (case replace_ids_in_itemset env obj id_map chg
                              (champion_name_from_path root_dir json_path) of
                         (obj', replacements, chg') \<Rightarrow>
                           if replacements \<noteq> 0 \<and> apply_changes then
                             (case (if backup \<and> \<not> path_exists fs (backup_path json_path)
                                    then copy2 fs json_path (backup_path json_path)
                                    else (None, fs)) of
                                (Some e, fs1) \<Rightarrow>
                                  (Some (False, 0,
                                     ''I/O error: '' @ os_strerror env e (backup_path json_path)),
                                   fs1, chg')
                              | (None, fs1) \<Rightarrow>
                                  (case json_dump_minified env fs1 obj' json_path of
                                     DumpOSError e fs2 \<Rightarrow>
                                       (Some (False, 0, ''I/O error: '' @ os_strerror env e json_path),
                                        fs2, chg')
                                   | DumpRaised fs2 \<Rightarrow> (None, fs2, chg')
                                   | Dumped fs2 \<Rightarrow> (Some (True, replacements, []), fs2, chg')))
                           else (Some (True, replacements, []), fs, chg'))
                | _ \<Rightarrow>
                    (Some (False, 0, ''Unexpected JSON format (root is not an object)''), fs, chg))))"

section \<open>The orchestrator\<close>

text \<open>
  The state of the loop of \<^verbatim>\<open>run_fix\<close>: its locals \<^verbatim>\<open>stats\<close>, \<^verbatim>\<open>changes\<close> and
  \<^verbatim>\<open>champions_seen\<close>, the two lists of \<^verbatim>\<open>result\<close> it appends to, the file system, and
  whether an exception has left the loop. The set \<^verbatim>\<open>champions_seen\<close> is kept as the list
  of its elements in the order they were first added.
\<close>

record run_state =
  st_stats :: RunStats
  st_changes :: ledger
  st_champions_seen :: "string list"
  st_modified_files :: "path list"
  st_warnings :: "string list"
  st_fs :: filesystem
  st_raised :: bool

definition init_state :: "filesystem \<Rightarrow> run_state" where
  "init_state fs =
     \<lparr>st_stats = \<lparr>files_scanned = 0, files_candidate_sr = 0, files_modified = 0, ids_replaced = 0\<rparr>,
      st_changes = [], st_champions_seen = [], st_modified_files = [], st_warnings = [],
      st_fs = fs, st_raised = False\<rparr>"

definition set_add :: "'a \<Rightarrow> 'a list \<Rightarrow> 'a list" where
  "set_add x xs = (if x \<in> set xs then xs else xs @ [x])"

text \<open>
  One iteration of the loop, on one located path. When \<^verbatim>\<open>process_file\<close> raises, the
  exception leaves the loop and \<^verbatim>\<open>run_fix\<close>; \<^verbatim>\<open>stats\<close> was assigned before the call.
\<close>

definition run_step ::
  "pyenv \<Rightarrow> path \<Rightarrow> (string \<rightharpoonup> string) \<Rightarrow> bool \<Rightarrow> bool \<Rightarrow> string \<Rightarrow> run_state \<Rightarrow> path \<Rightarrow> run_state" where
  "run_step env root_dir id_map apply_changes backup mc st json_path =
     (let stats1 = \<lparr>files_scanned = files_scanned (st_stats st) + 1,
                     files_candidate_sr = files_candidate_sr (st_stats st),
                     files_modified = files_modified (st_stats st),
                     ids_replaced = ids_replaced (st_stats st)\<rparr>
      in case process_file env (st_fs st) json_path root_dir id_map (st_changes st)
                apply_changes backup mc of
           (None, fs', chg') \<Rightarrow>
             st\<lparr>st_stats := stats1, st_changes := chg', st_fs := fs', st_raised := True\<rparr>
         | (Some (is_candidate, replacements, error), fs', chg') \<Rightarrow>
             if error \<noteq> [] then
               st\<lparr>st_stats := stats1, st_changes := chg', st_fs := fs',
                  st_warnings := st_warnings st @ [''WARN: '' @ path_str env json_path @ '': '' @ error]\<rparr>
             else if \<not> is_candidate then
               st\<lparr>st_stats := stats1, st_changes := chg', st_fs := fs'\<rparr>
             else
               st\<lparr>st_stats :=
                    \<lparr>files_scanned = files_scanned stats1,
                     files_candidate_sr = files_candidate_sr stats1 + 1,
                     files_modified = files_modified stats1 + (if replacements \<noteq> 0 then 1 else 0),
                     ids_replaced = ids_replaced stats1 + replacements\<rparr>,
                  st_changes := chg', st_fs := fs',
                  st_champions_seen :=
                    set_add (champion_name_from_path root_dir json_path) (st_champions_seen st),
                  st_modified_files :=
                    (if replacements \<noteq> 0 then st_modified_files st @ [json_path]
                     else st_modified_files st)\<rparr>)"

text \<open>
  The loop over the paths that \<^verbatim>\<open>iter_itemset_json_files\<close> yields: the body runs on
  each located path in turn, until an exception leaves the loop. The glob
  \<^verbatim>\<open>*/Recommended/*.json\<close> is the operating system's; its result \<open>located\<close> is an
  argument here. It yields no path twice, and only names that end in \<^verbatim>\<open>.json\<close>.
\<close>

definition run_loop ::
  "pyenv \<Rightarrow> path \<Rightarrow> (string \<rightharpoonup> string) \<Rightarrow> bool \<Rightarrow> bool \<Rightarrow> string \<Rightarrow> run_state \<Rightarrow> path list \<Rightarrow> run_state" where
  "run_loop env root_dir id_map apply_changes backup mc st located =
     foldl (\<lambda>s p. if st_raised s then s else run_step env root_dir id_map apply_changes backup mc s p)
       st located"

text \<open>
  \<^verbatim>\<open>run_fix\<close> returns its result, or \<open>None\<close> when an exception left it, together with
  the file system as it leaves it.
\<close>

definition run_fix ::
  "pyenv \<Rightarrow> filesystem \<Rightarrow> path list \<Rightarrow> path \<Rightarrow> bool \<Rightarrow> bool \<Rightarrow> string
     \<Rightarrow> RunResult option \<times> filesystem" where
  "run_fix env fs located root_dir apply_changes backup mc =
     (let st = run_loop env root_dir (fst build_maps) apply_changes backup mc (init_state fs) located
      in (if st_raised st then None
          else Some \<lparr>stats = st_stats st, changes = st_changes st,
                 modified_files = st_modified_files st, warnings = st_warnings st,
                 root = root_dir, map_code = mc,
                 champions_detected =
                   sort_key (casefold env) (set_order env (st_champions_seen st))\<rparr>,
          st_fs st))"

section \<open>The report builder\<close>

definition summary_row :: "(string \<rightharpoonup> ItemInfo) \<Rightarrow> string \<Rightarrow> string \<times> int \<Rightarrow> ChangeSummary" where
  "summary_row info_map champ kv =
     (case info_map (fst kv) of
        None \<Rightarrow>
          \<lparr>champion = champ, row_old_id = fst kv, row_new_id = ''?'',
           row_name_es = ''ID '' @ fst kv, row_name_en = ''ID '' @ fst kv, count = snd kv\<rparr>
      | Some info \<Rightarrow>
          \<lparr>champion = champ, row_old_id = old_id info, row_new_id = new_id info,
           row_name_es = name_es info, row_name_en = name_en info, count = snd kv\<rparr>)"

text \<open>
  The rows of one champion: the body of the outer loop. The champion is a key of the
  ledger there, so \<^verbatim>\<open>result.changes[champion]\<close> never raises; the model gives no rows
  for a name that is not a key.
\<close>

definition champion_rows :: "(string \<rightharpoonup> ItemInfo) \<Rightarrow> ledger \<Rightarrow> string \<Rightarrow> ChangeSummary list" where
  "champion_rows info_map chg champ =
     map (summary_row info_map champ)
       (sort_key (\<lambda>kv. (- snd kv, fst kv))
          (case map_of chg champ of None \<Rightarrow> [] | Some items_by_old_id \<Rightarrow> items_by_old_id))"

definition flatten_changes :: "pyenv \<Rightarrow> RunResult \<Rightarrow> ChangeSummary list" where
  "flatten_changes env result =
     concat (map (champion_rows (snd build_maps) (changes result))
               (sort_key (casefold env) (map fst (changes result))))"

section \<open>What the walk does, stated on the data\<close>

text \<open>
  The following definitions say, without a loop or an accumulator, which items the walk
  replaces and what it leaves behind. The theorems of the walk relate
  \<^const>\<open>replace_ids_in_itemset\<close> to them.

  An item is replaced when it is an object whose \<^verbatim>\<open>"id"\<close> value is not \<^verbatim>\<open>null\<close>, the
  string form of that value is a key of the identifier map, and the mapped value is not
  empty and differs from that string form.
\<close>

definition wants_replace :: "pyenv \<Rightarrow> (string \<rightharpoonup> string) \<Rightarrow> json \<Rightarrow> bool" where
  "wants_replace env id_map item =
     (case item of
        JObject kvs \<Rightarrow>
          (case map_of kvs ''id'' of
             None \<Rightarrow> False
           | Some raw_id \<Rightarrow>
               raw_id \<noteq> JNull \<and>
               (case id_map (py_str env raw_id) of
                  None \<Rightarrow> False
                | Some new \<Rightarrow> new \<noteq> [] \<and> new \<noteq> py_str env raw_id))
      | _ \<Rightarrow> False)"

text \<open>The string form of the \<^verbatim>\<open>"id"\<close> value of an item that has one.\<close>

definition item_old_id :: "pyenv \<Rightarrow> json \<Rightarrow> string" where
  "item_old_id env item =
     (case item of
        JObject kvs \<Rightarrow> (case map_of kvs ''id'' of None \<Rightarrow> [] | Some raw_id \<Rightarrow> py_str env raw_id)
      | _ \<Rightarrow> [])"

definition updated_item :: "pyenv \<Rightarrow> (string \<rightharpoonup> string) \<Rightarrow> json \<Rightarrow> json" where
  "updated_item env id_map item =
     (if wants_replace env id_map item then
        (case item of
           JObject kvs \<Rightarrow>
             (case id_map (item_old_id env item) of
                None \<Rightarrow> item
              | Some new \<Rightarrow> JObject (AList.update ''id'' (JString new) kvs))
         | _ \<Rightarrow> item)
      else item)"

text \<open>The items the walk visits in a block: those of an object with an \<^verbatim>\<open>"items"\<close> list.\<close>

definition block_items :: "json \<Rightarrow> json list" where
  "block_items block =
     (case block of
        JObject kvs \<Rightarrow> (case map_of kvs ''items'' of Some (JArray items) \<Rightarrow> items | _ \<Rightarrow> [])
      | _ \<Rightarrow> [])"

definition updated_block :: "pyenv \<Rightarrow> (string \<rightharpoonup> string) \<Rightarrow> json \<Rightarrow> json" where
  "updated_block env id_map block =
     (case block of
        JObject kvs \<Rightarrow>
          (case map_of kvs ''items'' of
             Some (JArray items) \<Rightarrow>
               JObject (AList.update ''items'' (JArray (map (updated_item env id_map) items)) kvs)
           | _ \<Rightarrow> block)
      | _ \<Rightarrow> block)"

text \<open>The replaced items of a list of blocks, in the order of the walk.\<close>

definition replaced_items :: "pyenv \<Rightarrow> (string \<rightharpoonup> string) \<Rightarrow> json list \<Rightarrow> json list" where
  "replaced_items env id_map blocks =
     filter (wants_replace env id_map) (concat (map block_items blocks))"

definition ledger_count :: "ledger \<Rightarrow> string \<Rightarrow> string \<Rightarrow> int" where
  "ledger_count chg champ item_id =
     (case map_of chg champ of
        None \<Rightarrow> 0
      | Some m \<Rightarrow> (case map_of m item_id of None \<Rightarrow> 0 | Some n \<Rightarrow> n))"

definition bump_all :: "pyenv \<Rightarrow> string \<Rightarrow> ledger \<Rightarrow> json list \<Rightarrow> ledger" where
  "bump_all env champ chg its = foldl (\<lambda>c it. ledger_bump champ (item_old_id env it) c) chg its"

section \<open>Auxiliary notions for the statements\<close>

text \<open>A path whose last part ends in \<^verbatim>\<open>.json\<close>, as every path the glob yields does.\<close>

definition json_name :: "path \<Rightarrow> bool" where
  "json_name p = (case rev p of [] \<Rightarrow> False | n # ps \<Rightarrow> take 5 (rev n) = rev ''.json'')"

text \<open>The mutations that were logged between two states of the file system.\<close>

definition new_ops :: "filesystem \<Rightarrow> filesystem \<Rightarrow> fs_op list" where
  "new_ops fs fs' = drop (length (oplog fs)) (oplog fs')"

text \<open>
  The bounds between the four counters, the componentwise order on run statistics, and
  the statistics after the first \<open>k\<close> iterations of the loop.
\<close>

definition stats_ok :: "RunStats \<Rightarrow> bool" where
  "stats_ok s =
     (0 \<le> files_modified s \<and> files_modified s \<le> files_candidate_sr s \<and>
      files_candidate_sr s \<le> files_scanned s \<and> 0 \<le> ids_replaced s)"

definition stats_le :: "RunStats \<Rightarrow> RunStats \<Rightarrow> bool" where
  "stats_le s t =
     (files_scanned s \<le> files_scanned t \<and> files_candidate_sr s \<le> files_candidate_sr t \<and>
      files_modified s \<le> files_modified t \<and> ids_replaced s \<le> ids_replaced t)"

definition stats_after ::
  "pyenv \<Rightarrow> path \<Rightarrow> (string \<rightharpoonup> string) \<Rightarrow> bool \<Rightarrow> bool \<Rightarrow> string \<Rightarrow> filesystem \<Rightarrow> path list \<Rightarrow> nat
     \<Rightarrow> RunStats" where
  "stats_after env root_dir id_map apply_changes backup mc fs located k =
     st_stats (run_loop env root_dir id_map apply_changes backup mc (init_state fs) (take k located))"

text \<open>
  The number of located paths on which the body of the loop is entered: all of them,
  unless an exception leaves the loop before.
\<close>

fun iterations ::
  "pyenv \<Rightarrow> path \<Rightarrow> (string \<rightharpoonup> string) \<Rightarrow> bool \<Rightarrow> bool \<Rightarrow> string \<Rightarrow> run_state \<Rightarrow> path list \<Rightarrow> nat" where
  "iterations env root_dir id_map apply_changes backup mc st [] = 0"
| "iterations env root_dir id_map apply_changes backup mc st (p # ps) =
     (if st_raised st then 0
      else Suc (iterations env root_dir id_map apply_changes backup mc
                  (run_step env root_dir id_map apply_changes backup mc st p) ps))"

text \<open>
  The value that an apply run has to write to a file: there is one when the file is read
  and parsed to an object for the expected map in which the walk replaces at least one
  identifier.
\<close>

definition pending_write ::
  "pyenv \<Rightarrow> filesystem \<Rightarrow> path \<Rightarrow> (string \<rightharpoonup> string) \<Rightarrow> string \<Rightarrow> path \<Rightarrow> json option" where
  "pending_write env fs root_dir id_map mc p =
     (case read_text fs p of
        Inl e \<Rightarrow> None
      | Inr body \<Rightarrow>
          (case json_loads env body of
             Loads (JObject kvs) \<Rightarrow>
               if map_of kvs ''map'' = Some (JString mc) then
                 (case replace_ids_in_itemset env (JObject kvs) id_map []
                         (champion_name_from_path root_dir p) of
                    (obj', n, chg') \<Rightarrow> if n \<noteq> 0 then Some obj' else None)
               else None
           | _ \<Rightarrow> None))"

text \<open>
  A value can be written over a file when the file is writable, the value is serialised
  without an error to a text that fits, and, with backups enabled and no backup there
  yet, the backup can be created and the text of the file fits in it. The writes of an
  apply run succeed on a file when the value it has to write there, if any, can be
  written over it.
\<close>

definition can_overwrite :: "pyenv \<Rightarrow> filesystem \<Rightarrow> bool \<Rightarrow> path \<Rightarrow> json \<Rightarrow> bool" where
  "can_overwrite env fs backup p obj' =
     (case files fs p of
        None \<Rightarrow> False
      | Some f \<Rightarrow>
          writable f \<and>
          (case json_dumps env obj' of Dumps s \<Rightarrow> fits fs p s | DumpRaises s \<Rightarrow> False) \<and>
          (if backup \<and> files fs (backup_path p) = None
           then may_create fs (backup_path p) \<and> fits fs (backup_path p) (content f)
           else True))"

definition writes_succeed ::
  "pyenv \<Rightarrow> filesystem \<Rightarrow> path \<Rightarrow> (string \<rightharpoonup> string) \<Rightarrow> string \<Rightarrow> bool \<Rightarrow> path \<Rightarrow> bool" where
  "writes_succeed env fs root_dir id_map mc backup p =
     (case pending_write env fs root_dir id_map mc p of
        None \<Rightarrow> True
      | Some obj' \<Rightarrow> can_overwrite env fs backup p obj')"

text \<open>
  What a result reports: its statistics, ledger, modified files and warnings. Two states
  of the loop report the same when all but the file system is equal.
\<close>

definition report :: "RunResult \<Rightarrow> RunStats \<times> ledger \<times> path list \<times> string list" where
  "report res = (stats res, changes res, modified_files res, warnings res)"

definition same_report :: "run_state \<Rightarrow> run_state \<Rightarrow> bool" where
  "same_report s t =
     (st_stats s = st_stats t \<and> st_changes s = st_changes t \<and>
      st_champions_seen s = st_champions_seen t \<and> st_modified_files s = st_modified_files t \<and>
      st_warnings s = st_warnings t \<and> st_raised s = st_raised t)"

text \<open>
  A ledger that is a dictionary of dictionaries has distinct keys at both levels. Its
  entries are the triples of grouping key, old identifier and count; the entry of a
  summary row is read off the row.
\<close>

definition dict_ok :: "ledger \<Rightarrow> bool" where
  "dict_ok chg = (distinct (map fst chg) \<and> list_all (\<lambda>cm. distinct (map fst (snd cm))) chg)"

definition ledger_entries :: "ledger \<Rightarrow> (string \<times> string \<times> int) list" where
  "ledger_entries chg = concat (map (\<lambda>cm. map (\<lambda>kv. (fst cm, fst kv, snd kv)) (snd cm)) chg)"

definition row_entry :: "ChangeSummary \<Rightarrow> string \<times> string \<times> int" where
  "row_entry r = (champion r, row_old_id r, count r)"

section \<open>Sample inputs\<close>

text \<open>
  Concrete inputs on which the theorems below are instantiated: four file texts with the
  values \<^verbatim>\<open>json.load\<close> returns for them, a library that parses and serialises these
  texts (and reports a syntax error on any other), and a \<^verbatim>\<open>Champions\<close> folder.
\<close>

definition text_sr :: string where
  \<open>text_sr = ''{"map":"SR","blocks":[{"items":[{"id":"3003"},{"id":"9999"}]}]}''\<close>

definition json_sr :: json where
  "json_sr =
     JObject [(''map'', JString ''SR''),
       (''blocks'', JArray [JObject [(''items'',
          JArray [JObject [(''id'', JString ''3003'')], JObject [(''id'', JString ''9999'')]])]])]"

definition text_sr_fixed :: string where
  \<open>text_sr_fixed = ''{"map":"SR","blocks":[{"items":[{"id":"323003"},{"id":"9999"}]}]}''\<close>

definition json_sr_fixed :: json where
  "json_sr_fixed =
     JObject [(''map'', JString ''SR''),
       (''blocks'', JArray [JObject [(''items'',
          JArray [JObject [(''id'', JString ''323003'')], JObject [(''id'', JString ''9999'')]])]])]"

definition text_num :: string where
  \<open>text_num = ''{"map":"SR","blocks":[{"items":[{"id":3110},{"id":3110},{"id":2065}]}]}''\<close>

definition json_num :: json where
  "json_num =
     JObject [(''map'', JString ''SR''),
       (''blocks'', JArray [JObject [(''items'',
          JArray [JObject [(''id'', JInt 3110)], JObject [(''id'', JInt 3110)],
                  JObject [(''id'', JInt 2065)]])]])]"

definition text_aram :: string where
  \<open>text_aram = ''{"map":"ARAM","blocks":[{"items":[{"id":"3003"}]}]}''\<close>

definition json_aram :: json where
  "json_aram =
     JObject [(''map'', JString ''ARAM''),
       (''blocks'', JArray [JObject [(''items'', JArray [JObject [(''id'', JString ''3003'')]])]])]"

definition text_list :: string where
  "text_list = ''[]''"

definition sample_texts :: "(string \<times> json) list" where
  "sample_texts =
     [(text_sr, json_sr), (text_sr_fixed, json_sr_fixed), (text_num, json_num),
      (text_aram, json_aram), (text_list, JArray [])]"

definition casefold_ascii :: "string \<Rightarrow> string" where
  "casefold_ascii s =
     map (\<lambda>c. case map_of (zip ''ABCDEFGHIJKLMNOPQRSTUVWXYZ'' ''abcdefghijklmnopqrstuvwxyz'') c of
                None \<Rightarrow> c
              | Some l \<Rightarrow> l) s"

definition sample_env :: pyenv where
  "sample_env =
     \<lparr>json_loads = (\<lambda>s. case map_of sample_texts s of
                           None \<Rightarrow> JSONDecodeError ''Expecting value: line 1 column 1 (char 0)''
                         | Some v \<Rightarrow> Loads v),
      json_dumps = (\<lambda>v. case map_of (map (\<lambda>(s, w). (w, s)) sample_texts) v of
                           None \<Rightarrow> Dumps []
                         | Some s \<Rightarrow> Dumps s),
      py_repr = (\<lambda>v. ''[]''),
      os_strerror = (\<lambda>e p. case e of
                            FileNotFoundError \<Rightarrow> ''[Errno 2] No such file or directory''
                          | PermissionError \<Rightarrow> ''[Errno 13] Permission denied''
                          | NoSpaceError \<Rightarrow> ''[Errno 28] No space left on device''),
      path_str = (\<lambda>p. concat (map (\<lambda>s. CHR ''/'' # s) p)),
      casefold = casefold_ascii,
      set_order = (\<lambda>xs. xs)\<rparr>"

definition root_dir0 :: path where
  "root_dir0 = [''Champions'']"

definition ahri_json :: path where
  "ahri_json = [''Champions'', ''Ahri'', ''Recommended'', ''a.json'']"

definition zed_json :: path where
  "zed_json = [''Champions'', ''Zed'', ''Recommended'', ''z.json'']"

definition rw_file :: "string \<Rightarrow> file_entry" where
  "rw_file s = \<lparr>content = s, readable = True, writable = True\<rparr>"

definition ro_file :: "string \<Rightarrow> file_entry" where
  "ro_file s = \<lparr>content = s, readable = True, writable = False\<rparr>"

definition sample_fs :: "(path \<times> file_entry) list \<Rightarrow> filesystem" where
  "sample_fs fl =
     \<lparr>files = map_of fl, may_create = (\<lambda>p. True), room = (\<lambda>p. None), oplog = []\<rparr>"

text \<open>
  An identifier map with an empty new identifier, and an item set with one item whose
  identifier is its key; an identifier map with the key \<^verbatim>\<open>None\<close>, and an item set with
  one item whose identifier is \<^verbatim>\<open>null\<close>.
\<close>

definition empty_value_map :: "string \<rightharpoonup> string" where
  "empty_value_map = map_of [(''3003'', [])]"

definition none_key_map :: "string \<rightharpoonup> string" where
  "none_key_map = map_of [(''None'', ''X'')]"

definition json_null_item :: json where
  "json_null_item =
     JObject [(''map'', JString ''SR''),
       (''blocks'', JArray [JObject [(''items'', JArray [JObject [(''id'', JNull)]])]])]"

definition json_one_item :: json where
  "json_one_item =
     JObject [(''map'', JString ''SR''),
       (''blocks'', JArray [JObject [(''items'', JArray [JObject [(''id'', JString ''3003'')]])]])]"

text \<open>
  A file with an existing backup that differs from it.
\<close>

definition stale_backup_fs :: filesystem where
  "stale_backup_fs =
     sample_fs [(ahri_json, rw_file text_sr), (backup_path ahri_json, rw_file text_aram)]"

text \<open>A folder with one file for the expected map and one for another map.\<close>

definition two_files_fs :: filesystem where
  "two_files_fs = sample_fs [(ahri_json, rw_file text_sr), (zed_json, rw_file text_aram)]"

text \<open>A folder whose one file, for the expected map, is read-only.\<close>

definition read_only_fs :: filesystem where
  "read_only_fs = sample_fs [(ahri_json, ro_file text_sr)]"

text \<open>
  A library whose serialiser raises, after it has written the start of the text, on every
  value (as \<^verbatim>\<open>json.dump\<close> does on a string with a lone surrogate).
\<close>

definition text_sr_partial :: string where
  \<open>text_sr_partial = ''{"map":"SR","blocks":[{"items":[{"id":"323003"},{"id":"''\<close>

definition raising_env :: pyenv where
  "raising_env = sample_env\<lparr>json_dumps := (\<lambda>v. DumpRaises text_sr_partial)\<rparr>"

text \<open>
  Two results of a run: one with a ledger of two champions, and one whose ledger holds an
  identifier that the embedded table does not have.
\<close>

definition sample_result :: RunResult where
  "sample_result =
     \<lparr>stats = \<lparr>files_scanned = 2, files_candidate_sr = 2, files_modified = 2, ids_replaced = 5\<rparr>,
      changes = [(''Zed'', [(''3003'', 1), (''3110'', 2)]), (''ahri'', [(''3110'', 1), (''2065'', 1)])],
      modified_files = [zed_json, ahri_json], warnings = [], root = root_dir0, map_code = ''SR'',
      champions_detected = [''ahri'', ''Zed'']\<rparr>"

definition fallback_result :: RunResult where
  "fallback_result =
     \<lparr>stats = \<lparr>files_scanned = 1, files_candidate_sr = 1, files_modified = 1, ids_replaced = 1\<rparr>,
      changes = [(''Ahri'', [(''9999'', 1)])],
      modified_files = [ahri_json], warnings = [], root = root_dir0, map_code = ''SR'',
      champions_detected = [''Ahri'']\<rparr>"

section \<open>Properties of the embedded table\<close>

lemma id_map_conv: "fst build_maps k = map_option new_id (map_of EMBEDDED_ITEM_MAP k)"
  by (simp add: build_maps_def map_of_map)

lemma embedded_entries:
  "list_all (\<lambda>(k, info). old_id info = k \<and> new_id info = ''32'' @ old_id info \<and>
       new_id info \<noteq> [] \<and> new_id info \<noteq> old_id info \<and>
       map_of EMBEDDED_ITEM_MAP (new_id info) = None) EMBEDDED_ITEM_MAP"
  by (simp add: EMBEDDED_ITEM_MAP_def)

lemma embedded_lookup:
  assumes "map_of EMBEDDED_ITEM_MAP k = Some info"
  shows "old_id info = k" and "new_id info = ''32'' @ k" 
    and "map_of EMBEDDED_ITEM_MAP (new_id info) = None"
proof -
  from assms have "(k, info) \<in> set EMBEDDED_ITEM_MAP" by (rule map_of_SomeD)
  with embedded_entries
  have "old_id info = k \<and> new_id info = ''32'' @ old_id info \<and>
        map_of EMBEDDED_ITEM_MAP (new_id info) = None"
    by (auto simp: list_all_iff)
  then show "old_id info = k" and "new_id info = ''32'' @ k" 
    and "map_of EMBEDDED_ITEM_MAP (new_id info) = None" by blast+
qed

lemma id_map_props:
  assumes "fst build_maps k = Some v"
  shows "v = ''32'' @ k" and "fst build_maps v = None"
proof -
  from assms obtain info where m: "map_of EMBEDDED_ITEM_MAP k = Some info" and v: "v = new_id info"
    by (auto simp: id_map_conv)
  from embedded_lookup(2)[OF m] v show "v = ''32'' @ k" by simp
  from embedded_lookup(3)[OF m] v show "fst build_maps v = None" by (simp add: id_map_conv)
qed

text \<open>
  C10. In the embedded table every new identifier is \<^verbatim>\<open>32\<close> followed by the old
  identifier, which is the key of the entry; so it is not empty and differs from the old
  identifier; and no new identifier is a key of the table. The same holds of the
  identifier map that \<^verbatim>\<open>build_maps\<close> derives from the table.
\<close>

theorem embedded_map_new_ids:
  "list_all (\<lambda>(k, info). old_id info = k \<and> new_id info = ''32'' @ old_id info \<and>
       new_id info \<noteq> [] \<and> new_id info \<noteq> old_id info \<and>
       map_of EMBEDDED_ITEM_MAP (new_id info) = None) EMBEDDED_ITEM_MAP \<and>
   (\<forall>k v. fst build_maps k = Some v \<longrightarrow>
      v = ''32'' @ k \<and> v \<noteq> [] \<and> v \<noteq> k \<and> fst build_maps v = None)"
proof -
  have "v = ''32'' @ k \<and> v \<noteq> [] \<and> v \<noteq> k \<and> fst build_maps v = None"
    if h: "fst build_maps k = Some v" for k v
  proof -
    have v: "v = ''32'' @ k" by (rule id_map_props(1)[OF h])
    then have "length v = length k + 2" by simp
    then have "v \<noteq> k" by auto
    with v id_map_props(2)[OF h] show ?thesis by simp
  qed
  with embedded_entries show ?thesis by blast
qed

theorem embedded_map_new_ids_witness:
  "fst build_maps ''3003'' = Some ''323003'' \<and> ''323003'' = ''32'' @ ''3003'' \<and>
   ''323003'' \<noteq> ''3003'' \<and> fst build_maps ''323003'' = None"
proof -
  have h: "fst build_maps ''3003'' = Some ''323003''"
    by (simp add: id_map_conv EMBEDDED_ITEM_MAP_def)
  from embedded_map_new_ids h show ?thesis by blast
qed

section \<open>The walk replaces exactly the items that want it\<close>

lemma replace_item_eq:
  "replace_item env id_map champ item (n, chg) =
     (updated_item env id_map item,
      n + (if wants_replace env id_map item then 1 else 0),
      (if wants_replace env id_map item then ledger_bump champ (item_old_id env item) chg else chg))"
  by (auto simp: replace_item_def updated_item_def wants_replace_def item_old_id_def Let_def
      split: json.splits option.splits)

lemma bump_all_Nil: "bump_all env champ chg [] = chg"
  by (simp add: bump_all_def)

lemma bump_all_Cons:
  "bump_all env champ chg (it # its) =
     bump_all env champ (ledger_bump champ (item_old_id env it) chg) its"
  by (simp add: bump_all_def)

lemma bump_all_append:
  "bump_all env champ chg (xs @ ys) = bump_all env champ (bump_all env champ chg xs) ys"
  by (simp add: bump_all_def)

lemma replace_items_eq:
  "replace_items env id_map champ items (n, chg) =
     (map (updated_item env id_map) items,
      n + int (length (filter (wants_replace env id_map) items)),
      bump_all env champ chg (filter (wants_replace env id_map) items))"
  by (induction items arbitrary: n chg) (simp_all add: replace_item_eq bump_all_Nil bump_all_Cons)

lemma replace_block_eq:
  "replace_block env id_map champ block (n, chg) =
     (updated_block env id_map block,
      n + int (length (filter (wants_replace env id_map) (block_items block))),
      bump_all env champ chg (filter (wants_replace env id_map) (block_items block)))"
  by (auto simp: replace_block_def updated_block_def block_items_def replace_items_eq bump_all_Nil
      split: json.splits option.splits)

lemma replace_blocks_eq:
  "replace_blocks env id_map champ blocks (n, chg) =
     (map (updated_block env id_map) blocks,
      n + int (length (replaced_items env id_map blocks)),
      bump_all env champ chg (replaced_items env id_map blocks))"
  by (induction blocks arbitrary: n chg)
     (simp_all add: replace_block_eq replaced_items_def bump_all_append bump_all_Nil)

lemma replace_ids_eq:
  "map_of kvs ''blocks'' = Some (JArray blocks) \<Longrightarrow>
   replace_ids_in_itemset env (JObject kvs) id_map chg champ =
     (JObject (AList.update ''blocks'' (JArray (map (updated_block env id_map) blocks)) kvs),
      int (length (replaced_items env id_map blocks)),
      bump_all env champ chg (replaced_items env id_map blocks))"
  by (simp add: replace_ids_in_itemset_def replace_blocks_eq)

lemma replace_ids_no_blocks:
  "(\<And>kvs blocks. obj = JObject kvs \<Longrightarrow> map_of kvs ''blocks'' \<noteq> Some (JArray blocks)) \<Longrightarrow>
   replace_ids_in_itemset env obj id_map chg champ = (obj, 0, chg)"
  by (auto simp: replace_ids_in_itemset_def split: json.splits option.splits)

lemma replace_ids_count_nonneg:
  "0 \<le> fst (snd (replace_ids_in_itemset env obj id_map chg champ))"
proof (cases "\<exists>kvs blocks. obj = JObject kvs \<and> map_of kvs ''blocks'' = Some (JArray blocks)")
  case True
  then show ?thesis by (auto simp: replace_ids_eq)
next
  case False
  then have "replace_ids_in_itemset env obj id_map chg champ = (obj, 0, chg)"
    by (intro replace_ids_no_blocks) auto
  then show ?thesis by simp
qed

lemma ledger_count_bump:
  "ledger_count (ledger_bump champ s chg) c t =
     ledger_count chg c t + (if c = champ \<and> t = s then 1 else 0)"
  by (auto simp: ledger_count_def ledger_bump_def Let_def update_conv' split: option.splits)

lemma ledger_count_bump_all:
  "ledger_count (bump_all env champ chg its) c t =
     ledger_count chg c t +
       (if c = champ then int (length (filter (\<lambda>it. item_old_id env it = t) its)) else 0)"
  by (induction its arbitrary: chg) (simp_all add: bump_all_Nil bump_all_Cons ledger_count_bump)

lemma wants_replaceI:
  assumes "map_of ikvs ''id'' = Some raw" "raw \<noteq> JNull" "id_map (py_str env raw) = Some new"
    "new \<noteq> []" "new \<noteq> py_str env raw"
  shows "wants_replace env id_map (JObject ikvs)"
    and "item_old_id env (JObject ikvs) = py_str env raw"
    and "updated_item env id_map (JObject ikvs) = JObject (AList.update ''id'' (JString new) ikvs)"
  using assms by (simp_all add: wants_replace_def item_old_id_def updated_item_def)

lemma wants_replaceD:
  assumes "wants_replace env id_map item"
  shows "\<exists>ikvs raw new. item = JObject ikvs \<and> map_of ikvs ''id'' = Some raw \<and> raw \<noteq> JNull \<and>
           id_map (py_str env raw) = Some new \<and> new \<noteq> [] \<and> new \<noteq> py_str env raw"
  using assms by (auto simp: wants_replace_def split: json.splits option.splits)

lemma updated_item_other: "\<not> wants_replace env id_map item \<Longrightarrow> updated_item env id_map item = item"
  by (simp add: updated_item_def)

text \<open>
  C2 (amended). For an object with a \<^verbatim>\<open>"blocks"\<close> list, \<^verbatim>\<open>replace_ids_in_itemset\<close>
  returns the object in which every block that is an object with an \<^verbatim>\<open>"items"\<close> list has
  its items updated, the number of replaced items, and the ledger bumped once per replaced
  item, under the grouping key and the old identifier string. An item is replaced exactly
  when it is an object whose \<^verbatim>\<open>"id"\<close> value is not \<^verbatim>\<open>null\<close>, the string form of the
  value is a key of the identifier map, and the mapped value is not empty and differs from
  the string form; its \<^verbatim>\<open>"id"\<close> then becomes the mapped value, as a string. Every other
  item is returned as it was and is not counted.
\<close>

theorem replace_ids_in_itemset_replaces:
  assumes "map_of kvs ''blocks'' = Some (JArray blocks)"
  shows
    "replace_ids_in_itemset env (JObject kvs) id_map chg champ =
       (JObject (AList.update ''blocks'' (JArray (map (updated_block env id_map) blocks)) kvs),
        int (length (replaced_items env id_map blocks)),
        bump_all env champ chg (replaced_items env id_map blocks)) \<and>
     (\<forall>c s. ledger_count (bump_all env champ chg (replaced_items env id_map blocks)) c s =
        ledger_count chg c s +
          (if c = champ
           then int (length (filter (\<lambda>it. item_old_id env it = s) (replaced_items env id_map blocks)))
           else 0)) \<and>
     (\<forall>ikvs raw new.
        map_of ikvs ''id'' = Some raw \<and> raw \<noteq> JNull \<and> id_map (py_str env raw) = Some new \<and>
        new \<noteq> [] \<and> new \<noteq> py_str env raw \<longrightarrow>
          wants_replace env id_map (JObject ikvs) \<and>
          item_old_id env (JObject ikvs) = py_str env raw \<and>
          updated_item env id_map (JObject ikvs) = JObject (AList.update ''id'' (JString new) ikvs)) \<and>
     (\<forall>item. wants_replace env id_map item \<longrightarrow>
        (\<exists>ikvs raw new. item = JObject ikvs \<and> map_of ikvs ''id'' = Some raw \<and> raw \<noteq> JNull \<and>
           id_map (py_str env raw) = Some new \<and> new \<noteq> [] \<and> new \<noteq> py_str env raw)) \<and>
     (\<forall>item. \<not> wants_replace env id_map item \<longrightarrow> updated_item env id_map item = item)"
proof (intro conjI allI impI)
  show "replace_ids_in_itemset env (JObject kvs) id_map chg champ =
       (JObject (AList.update ''blocks'' (JArray (map (updated_block env id_map) blocks)) kvs),
        int (length (replaced_items env id_map blocks)),
        bump_all env champ chg (replaced_items env id_map blocks))"
    by (rule replace_ids_eq[OF assms])
next
  fix c s
  show "ledger_count (bump_all env champ chg (replaced_items env id_map blocks)) c s =
        ledger_count chg c s +
          (if c = champ
           then int (length (filter (\<lambda>it. item_old_id env it = s) (replaced_items env id_map blocks)))
           else 0)"
    by (rule ledger_count_bump_all)
next
  fix ikvs raw new
  assume h: "map_of ikvs ''id'' = Some raw \<and> raw \<noteq> JNull \<and> id_map (py_str env raw) = Some new \<and>
        new \<noteq> [] \<and> new \<noteq> py_str env raw"
  then show "wants_replace env id_map (JObject ikvs)" by (intro wants_replaceI(1)) auto
  from h show "item_old_id env (JObject ikvs) = py_str env raw" by (intro wants_replaceI(2)) auto
  from h show "updated_item env id_map (JObject ikvs) = JObject (AList.update ''id'' (JString new) ikvs)"
    by (intro wants_replaceI(3)) auto
next
  fix item
  assume "wants_replace env id_map item"
  then show "\<exists>ikvs raw new. item = JObject ikvs \<and> map_of ikvs ''id'' = Some raw \<and> raw \<noteq> JNull \<and>
           id_map (py_str env raw) = Some new \<and> new \<noteq> [] \<and> new \<noteq> py_str env raw"
    by (rule wants_replaceD)
next
  fix item
  assume "\<not> wants_replace env id_map item"
  then show "updated_item env id_map item = item" by (rule updated_item_other)
qed

lemma sample_id_map_3003: "fst build_maps ''3003'' = Some ''323003''"
  by (simp add: id_map_conv EMBEDDED_ITEM_MAP_def)

lemma sample_id_map_9999: "fst build_maps ''9999'' = None"
  by (simp add: id_map_conv EMBEDDED_ITEM_MAP_def)

theorem replace_ids_in_itemset_replaces_witness:
  "map_of [(''map'', JString ''SR''),
       (''blocks'', JArray [JObject [(''items'',
          JArray [JObject [(''id'', JString ''3003'')], JObject [(''id'', JString ''9999'')]])]])]
     ''blocks'' =
     Some (JArray [JObject [(''items'',
          JArray [JObject [(''id'', JString ''3003'')], JObject [(''id'', JString ''9999'')]])]]) \<and>
   replace_ids_in_itemset sample_env json_sr (fst build_maps) [] ''Ahri'' =
     (json_sr_fixed, 1, [(''Ahri'', [(''3003'', 1)])])"
proof -
  let ?blocks = "[JObject [(''items'',
          JArray [JObject [(''id'', JString ''3003'')], JObject [(''id'', JString ''9999'')]])]]"
  let ?kvs = "[(''map'', JString ''SR''), (''blocks'', JArray ?blocks)]"
  have h: "map_of ?kvs ''blocks'' = Some (JArray ?blocks)" by simp
  have w1: "wants_replace sample_env (fst build_maps) (JObject [(''id'', JString ''3003'')])"
    by (simp add: wants_replace_def py_str_def sample_id_map_3003)
  have w2: "\<not> wants_replace sample_env (fst build_maps) (JObject [(''id'', JString ''9999'')])"
    by (simp add: wants_replace_def py_str_def sample_id_map_9999)
  have "replace_ids_in_itemset sample_env (JObject ?kvs) (fst build_maps) [] ''Ahri'' =
       (JObject (AList.update ''blocks'' (JArray (map (updated_block sample_env (fst build_maps)) ?blocks)) ?kvs),
        int (length (replaced_items sample_env (fst build_maps) ?blocks)),
        bump_all sample_env ''Ahri'' [] (replaced_items sample_env (fst build_maps) ?blocks))"
    using replace_ids_in_itemset_replaces[OF h, of sample_env "fst build_maps" "[]" "''Ahri''"]
    by blast
  then have "replace_ids_in_itemset sample_env json_sr (fst build_maps) [] ''Ahri'' =
     (json_sr_fixed, 1, [(''Ahri'', [(''3003'', 1)])])"
    using w1 w2
    by (simp add: json_sr_def json_sr_fixed_def updated_block_def updated_item_def
        replaced_items_def block_items_def item_old_id_def py_str_def sample_id_map_3003
        bump_all_def ledger_bump_def)
  with h show ?thesis by simp
qed

text \<open>
  The claim as stated fails where the mapped value is empty: the identifier \<^verbatim>\<open>3003\<close> is a
  key of the map, the mapped value differs from it, and the item is neither changed nor
  counted. It fails as well where the \<^verbatim>\<open>"id"\<close> value is \<^verbatim>\<open>null\<close> and its string form
  \<^verbatim>\<open>None\<close> is a key of the map.
\<close>

theorem replace_ids_in_itemset_empty_value_counterexample:
  "empty_value_map (py_str sample_env (JString ''3003'')) = Some [] \<and>
   [] \<noteq> py_str sample_env (JString ''3003'') \<and>
   replace_ids_in_itemset sample_env json_one_item empty_value_map [] ''Ahri'' =
     (json_one_item, 0, []) \<and>
   none_key_map (py_str sample_env JNull) = Some ''X'' \<and>
   ''X'' \<noteq> py_str sample_env JNull \<and>
   replace_ids_in_itemset sample_env json_null_item none_key_map [] ''Ahri'' =
     (json_null_item, 0, [])"
  by (simp add: empty_value_map_def none_key_map_def py_str_def json_one_item_def
      json_null_item_def replace_ids_in_itemset_def replace_block_def replace_item_def Let_def)

text \<open>Identifiers stored as numbers are compared by their decimal string form.\<close>

lemma replace_ids_numeric_sample:
  "replace_ids_in_itemset sample_env json_num (fst build_maps) [] ''Ahri'' =
     (JObject [(''map'', JString ''SR''),
        (''blocks'', JArray [JObject [(''items'',
           JArray [JObject [(''id'', JString ''323110'')], JObject [(''id'', JString ''323110'')],
                   JObject [(''id'', JString ''322065'')]])]])],
      3, [(''Ahri'', [(''3110'', 2), (''2065'', 1)])])"
  by (simp add: json_num_def replace_ids_in_itemset_def replace_block_def replace_item_def
      Let_def py_str_def str_int_def digits.simps digit_char_def ledger_bump_def id_map_conv
      EMBEDDED_ITEM_MAP_def)

section \<open>Idempotence of the walk under the embedded map\<close>

lemma wants_replace_updated_embedded:
  "\<not> wants_replace env (fst build_maps) (updated_item env (fst build_maps) item)"
proof (cases "wants_replace env (fst build_maps) item")
  case True
  then obtain ikvs raw new where item: "item = JObject ikvs" and raw: "map_of ikvs ''id'' = Some raw"
    "raw \<noteq> JNull" and new: "fst build_maps (py_str env raw) = Some new" "new \<noteq> []"
    "new \<noteq> py_str env raw"
    using wants_replaceD by blast
  have upd: "updated_item env (fst build_maps) item = JObject (AList.update ''id'' (JString new) ikvs)"
    unfolding item using raw new by (rule wants_replaceI(3))
  have "fst build_maps new = None" using new(1) by (rule id_map_props(2))
  then show ?thesis
    by (simp add: upd wants_replace_def update_conv' py_str_def)
next
  case False
  then show ?thesis by (simp add: updated_item_other)
qed

lemma updated_item_idem_embedded:
  "updated_item env (fst build_maps) (updated_item env (fst build_maps) item) =
     updated_item env (fst build_maps) item"
  by (rule updated_item_other) (rule wants_replace_updated_embedded)

lemma block_items_updated:
  "block_items (updated_block env id_map block) = map (updated_item env id_map) (block_items block)"
  by (auto simp: block_items_def updated_block_def update_conv' split: json.splits option.splits)

lemma updated_block_idem_embedded:
  "updated_block env (fst build_maps) (updated_block env (fst build_maps) block) =
     updated_block env (fst build_maps) block"
  by (auto simp: updated_block_def update_conv' updated_item_idem_embedded comp_def
      split: json.splits option.splits)

lemma replaced_items_updated_embedded:
  "replaced_items env (fst build_maps) (map (updated_block env (fst build_maps)) blocks) = []"
  by (induction blocks)
     (simp_all add: replaced_items_def block_items_updated filter_empty_conv
        wants_replace_updated_embedded)

text \<open>
  C4. With the embedded identifier map, applying \<^verbatim>\<open>replace_ids_in_itemset\<close> to the value
  it returned returns that value again, reports zero replacements and leaves the ledger
  as it was given. This holds for every JSON value, every ledger and every grouping key.
\<close>

theorem replace_ids_in_itemset_idempotent:
  "replace_ids_in_itemset env
     (fst (replace_ids_in_itemset env obj (fst build_maps) chg champ)) (fst build_maps) chg2 champ2 =
   (fst (replace_ids_in_itemset env obj (fst build_maps) chg champ), 0, chg2)"
proof (cases "\<exists>kvs blocks. obj = JObject kvs \<and> map_of kvs ''blocks'' = Some (JArray blocks)")
  case True
  then obtain kvs blocks where obj: "obj = JObject kvs"
    and blocks: "map_of kvs ''blocks'' = Some (JArray blocks)" by blast
  let ?blocks' = "map (updated_block env (fst build_maps)) blocks"
  let ?kvs' = "AList.update ''blocks'' (JArray ?blocks') kvs"
  have first: "fst (replace_ids_in_itemset env obj (fst build_maps) chg champ) = JObject ?kvs'"
    by (simp add: obj replace_ids_eq[OF blocks])
  have blocks': "map_of ?kvs' ''blocks'' = Some (JArray ?blocks')"
    by (simp add: update_conv')
  have same: "map (updated_block env (fst build_maps)) ?blocks' = ?blocks'"
    by (simp add: updated_block_idem_embedded)
  show ?thesis
    unfolding first replace_ids_eq[OF blocks'] same
    by (simp add: replaced_items_updated_embedded bump_all_Nil)
next
  case False
  then have first: "replace_ids_in_itemset env obj (fst build_maps) chg champ = (obj, 0, chg)"
    by (intro replace_ids_no_blocks) auto
  from False have "replace_ids_in_itemset env obj (fst build_maps) chg2 champ2 = (obj, 0, chg2)"
    by (intro replace_ids_no_blocks) auto
  with first show ?thesis by simp
qed

theorem replace_ids_in_itemset_idempotent_witness:
  "replace_ids_in_itemset sample_env json_sr (fst build_maps) [] ''Ahri'' =
     (json_sr_fixed, 1, [(''Ahri'', [(''3003'', 1)])]) \<and>
   replace_ids_in_itemset sample_env json_sr_fixed (fst build_maps) [(''Ahri'', [(''3003'', 1)])] ''Ahri'' =
     (json_sr_fixed, 0, [(''Ahri'', [(''3003'', 1)])])"
proof -
  have first: "replace_ids_in_itemset sample_env json_sr (fst build_maps) [] ''Ahri'' =
     (json_sr_fixed, 1, [(''Ahri'', [(''3003'', 1)])])"
    by (simp add: json_sr_def json_sr_fixed_def replace_ids_in_itemset_def replace_block_def
        replace_item_def Let_def py_str_def sample_id_map_3003 sample_id_map_9999 ledger_bump_def)
  from replace_ids_in_itemset_idempotent[of sample_env json_sr "[]" "''Ahri''"
      "[(''Ahri'', [(''3003'', 1)])]" "''Ahri''"]
  show ?thesis unfolding first by simp
qed

section \<open>The outcomes of the per-file processor\<close>

lemma process_file_read_error:
  "read_text fs p = Inl e \<Longrightarrow>
   process_file env fs p root_dir id_map chg apply_changes backup mc =
     (Some (False, 0, ''I/O error: '' @ os_strerror env e p), fs, chg)"
  by (simp add: process_file_def)

lemma process_file_invalid_json:
  "read_text fs p = Inr body \<Longrightarrow> json_loads env body = JSONDecodeError msg \<Longrightarrow>
   process_file env fs p root_dir id_map chg apply_changes backup mc =
     (Some (False, 0, ''Invalid JSON: '' @ msg), fs, chg)"
  by (simp add: process_file_def)

lemma process_file_not_object_eq:
  "read_text fs p = Inr body \<Longrightarrow> json_loads env body = Loads v \<Longrightarrow> \<forall>kvs. v \<noteq> JObject kvs \<Longrightarrow>
   process_file env fs p root_dir id_map chg apply_changes backup mc =
     (Some (False, 0, ''Unexpected JSON format (root is not an object)''), fs, chg)"
  by (cases v) (simp_all add: process_file_def)

lemma process_file_other_map:
  "read_text fs p = Inr body \<Longrightarrow> json_loads env body = Loads (JObject kvs) \<Longrightarrow>
   map_of kvs ''map'' \<noteq> Some (JString mc) \<Longrightarrow>
   process_file env fs p root_dir id_map chg apply_changes backup mc =
     (Some (False, 0, []), fs, chg)"
  by (simp add: process_file_def)

lemma process_file_load_raises:
  "read_text fs p = Inr body \<Longrightarrow> json_loads env body = LoadRaises \<Longrightarrow>
   process_file env fs p root_dir id_map chg apply_changes backup mc = (None, fs, chg)"
  by (simp add: process_file_def)

lemma process_file_candidate:
  assumes "read_text fs p = Inr body" "json_loads env body = Loads (JObject kvs)"
    "map_of kvs ''map'' = Some (JString mc)"
    "replace_ids_in_itemset env (JObject kvs) id_map chg (champion_name_from_path root_dir p) =
       (obj', n, chg')"
  shows "process_file env fs p root_dir id_map chg apply_changes backup mc =
     (if n \<noteq> 0 \<and> apply_changes then
        (case (if backup \<and> \<not> path_exists fs (backup_path p) then copy2 fs p (backup_path p)
               else (None, fs)) of
           (Some e, fs1) \<Rightarrow>
             (Some (False, 0, ''I/O error: '' @ os_strerror env e (backup_path p)), fs1, chg')
         | (None, fs1) \<Rightarrow>
             (case json_dump_minified env fs1 obj' p of
                DumpOSError e fs2 \<Rightarrow>
                  (Some (False, 0, ''I/O error: '' @ os_strerror env e p), fs2, chg')
              | DumpRaised fs2 \<Rightarrow> (None, fs2, chg')
              | Dumped fs2 \<Rightarrow> (Some (True, n, []), fs2, chg')))
      else (Some (True, n, []), fs, chg'))"
  using assms by (simp add: process_file_def)

lemma run_step_warning:
  "process_file env (st_fs st) p root_dir id_map (st_changes st) apply_changes backup mc =
     (Some (c, n, e), fs', chg') \<Longrightarrow> e \<noteq> [] \<Longrightarrow>
   run_step env root_dir id_map apply_changes backup mc st p =
     st\<lparr>st_stats := (st_stats st)\<lparr>files_scanned := files_scanned (st_stats st) + 1\<rparr>,
        st_changes := chg', st_fs := fs',
        st_warnings := st_warnings st @ [''WARN: '' @ path_str env p @ '': '' @ e]\<rparr>"
  by (simp add: run_step_def)

lemma run_step_skip:
  "process_file env (st_fs st) p root_dir id_map (st_changes st) apply_changes backup mc =
     (Some (False, n, []), fs', chg') \<Longrightarrow>
   run_step env root_dir id_map apply_changes backup mc st p =
     st\<lparr>st_stats := (st_stats st)\<lparr>files_scanned := files_scanned (st_stats st) + 1\<rparr>,
        st_changes := chg', st_fs := fs'\<rparr>"
  by (simp add: run_step_def)

lemma run_step_candidate:
  "process_file env (st_fs st) p root_dir id_map (st_changes st) apply_changes backup mc =
     (Some (True, n, []), fs', chg') \<Longrightarrow>
   run_step env root_dir id_map apply_changes backup mc st p =
     st\<lparr>st_stats :=
          \<lparr>files_scanned = files_scanned (st_stats st) + 1,
           files_candidate_sr = files_candidate_sr (st_stats st) + 1,
           files_modified = files_modified (st_stats st) + (if n \<noteq> 0 then 1 else 0),
           ids_replaced = ids_replaced (st_stats st) + n\<rparr>,
        st_changes := chg', st_fs := fs',
        st_champions_seen := set_add (champion_name_from_path root_dir p) (st_champions_seen st),
        st_modified_files := (if n \<noteq> 0 then st_modified_files st @ [p] else st_modified_files st)\<rparr>"
  by (simp add: run_step_def)

lemma run_step_raises:
  "process_file env (st_fs st) p root_dir id_map (st_changes st) apply_changes backup mc =
     (None, fs', chg') \<Longrightarrow>
   run_step env root_dir id_map apply_changes backup mc st p =
     st\<lparr>st_stats := (st_stats st)\<lparr>files_scanned := files_scanned (st_stats st) + 1\<rparr>,
        st_changes := chg', st_fs := fs', st_raised := True\<rparr>"
  by (simp add: run_step_def)

lemma run_loop_Nil: "run_loop env root_dir id_map apply_changes backup mc st [] = st"
  by (simp add: run_loop_def)

lemma run_loop_raised:
  "st_raised st \<Longrightarrow> run_loop env root_dir id_map apply_changes backup mc st ps = st"
  by (induction ps) (simp_all add: run_loop_def)

lemma run_loop_Cons:
  "run_loop env root_dir id_map apply_changes backup mc st (p # ps) =
     (if st_raised st then st
      else run_loop env root_dir id_map apply_changes backup mc
             (run_step env root_dir id_map apply_changes backup mc st p) ps)"
  using run_loop_raised[of st env root_dir id_map apply_changes backup mc ps]
  by (simp add: run_loop_def)

lemma run_loop_snoc:
  "run_loop env root_dir id_map apply_changes backup mc st (ps @ [p]) =
     (if st_raised (run_loop env root_dir id_map apply_changes backup mc st ps)
      then run_loop env root_dir id_map apply_changes backup mc st ps
      else run_step env root_dir id_map apply_changes backup mc
             (run_loop env root_dir id_map apply_changes backup mc st ps) p)"
  by (simp add: run_loop_def)

lemma sample_read:
  "read_text (sample_fs ((p, rw_file s) # fl)) p = Inr s"
  "read_text (sample_fs ((p, ro_file s) # fl)) p = Inr s"
  by (simp_all add: read_text_def sample_fs_def rw_file_def ro_file_def)

lemma sample_loads:
  "json_loads sample_env text_sr = Loads json_sr"
  "json_loads sample_env text_sr_fixed = Loads json_sr_fixed"
  "json_loads sample_env text_num = Loads json_num"
  "json_loads sample_env text_aram = Loads json_aram"
  "json_loads sample_env text_list = Loads (JArray [])"
  by (simp_all add: sample_env_def sample_texts_def text_sr_def text_sr_fixed_def text_num_def
      text_aram_def text_list_def)

lemma sample_path_str:
  "path_str sample_env ahri_json = ''/Champions/Ahri/Recommended/a.json''"
  "path_str sample_env zed_json = ''/Champions/Zed/Recommended/z.json''"
  by (simp_all add: sample_env_def ahri_json_def zed_json_def)

section \<open>A file whose top-level value is not an object\<close>

text \<open>
  C1 (amended). For a file that is read and parsed, and whose top-level value is not an
  object, \<^verbatim>\<open>process_file\<close> returns \<^verbatim>\<open>is_candidate = False\<close>, a count of zero and the
  error text \<^verbatim>\<open>Unexpected JSON format (root is not an object)\<close>, and changes neither the
  file system nor the ledger. The text is not empty, so the loop of \<^verbatim>\<open>run_fix\<close> counts
  the file as scanned and appends one warning for it.
\<close>

theorem process_file_not_object_warns:
  assumes "read_text (st_fs st) p = Inr body" "json_loads env body = Loads v"
    "\<forall>kvs. v \<noteq> JObject kvs"
  shows
    "process_file env (st_fs st) p root_dir id_map (st_changes st) apply_changes backup mc =
       (Some (False, 0, ''Unexpected JSON format (root is not an object)''), st_fs st, st_changes st) \<and>
     run_step env root_dir id_map apply_changes backup mc st p =
       st\<lparr>st_stats := (st_stats st)\<lparr>files_scanned := files_scanned (st_stats st) + 1\<rparr>,
          st_warnings := st_warnings st @
            [''WARN: '' @ path_str env p @ '': Unexpected JSON format (root is not an object)'']\<rparr>"
proof -
  have pf: "process_file env (st_fs st) p root_dir id_map (st_changes st) apply_changes backup mc =
       (Some (False, 0, ''Unexpected JSON format (root is not an object)''), st_fs st, st_changes st)"
    using assms by (rule process_file_not_object_eq)
  have "run_step env root_dir id_map apply_changes backup mc st p =
       st\<lparr>st_stats := (st_stats st)\<lparr>files_scanned := files_scanned (st_stats st) + 1\<rparr>,
          st_changes := st_changes st, st_fs := st_fs st,
          st_warnings := st_warnings st @
            [''WARN: '' @ path_str env p @ '': '' @ ''Unexpected JSON format (root is not an object)'']\<rparr>"
    by (rule run_step_warning[OF pf]) simp
  with pf show ?thesis by simp
qed

theorem process_file_not_object_warns_witness:
  "read_text (st_fs (init_state (sample_fs [(ahri_json, rw_file text_list)]))) ahri_json = Inr text_list \<and>
   json_loads sample_env text_list = Loads (JArray []) \<and>
   st_warnings (run_step sample_env root_dir0 (fst build_maps) True True ''SR''
       (init_state (sample_fs [(ahri_json, rw_file text_list)])) ahri_json) =
     [''WARN: /Champions/Ahri/Recommended/a.json: Unexpected JSON format (root is not an object)'']"
proof -
  let ?st = "init_state (sample_fs [(ahri_json, rw_file text_list)])"
  have r: "read_text (st_fs ?st) ahri_json = Inr text_list"
    by (simp add: init_state_def sample_read)
  have l: "json_loads sample_env text_list = Loads (JArray [])" by (rule sample_loads)
  have n: "\<forall>kvs. JArray [] \<noteq> JObject kvs" by simp
  from process_file_not_object_warns[OF r l n, of root_dir0 "fst build_maps" True True "''SR''"]
  have "st_warnings (run_step sample_env root_dir0 (fst build_maps) True True ''SR'' ?st ahri_json) =
     [''WARN: '' @ path_str sample_env ahri_json @ '': Unexpected JSON format (root is not an object)'']"
    by (simp add: init_state_def)
  with r l show ?thesis by (simp add: sample_path_str)
qed

text \<open>
  The claim as stated fails on a file that holds \<^verbatim>\<open>[]\<close>: the error text is not empty
  and the run records a warning for the file.
\<close>

theorem process_file_not_object_counterexample:
  "json_loads sample_env text_list = Loads (JArray []) \<and>
   fst (process_file sample_env (sample_fs [(ahri_json, rw_file text_list)]) ahri_json root_dir0
          (fst build_maps) [] True True ''SR'') =
     Some (False, 0, ''Unexpected JSON format (root is not an object)'') \<and>
   ''Unexpected JSON format (root is not an object)'' \<noteq> [] \<and>
   map_option warnings
     (fst (run_fix sample_env (sample_fs [(ahri_json, rw_file text_list)]) [ahri_json]
             root_dir0 True True ''SR'')) =
     Some [''WARN: /Champions/Ahri/Recommended/a.json: Unexpected JSON format (root is not an object)'']"
  by (simp add: sample_loads sample_read sample_path_str process_file_def run_fix_def
      run_loop_def run_step_def init_state_def Let_def)

section \<open>What a call of the per-file processor does to the files\<close>

lemma backup_path_neq: "backup_path p \<noteq> p"
  by (cases p rule: rev_cases) (simp_all add: backup_path_def)

lemma backup_path_not_json: "json_name p \<Longrightarrow> backup_path q \<noteq> p"
  by (cases q rule: rev_cases) (auto simp: backup_path_def json_name_def)

lemma backup_path_inj: "q \<noteq> [] \<Longrightarrow> q' \<noteq> [] \<Longrightarrow> backup_path q = backup_path q' \<Longrightarrow> q = q'"
  by (cases q rule: rev_cases; cases q' rule: rev_cases) (simp_all add: backup_path_def)

lemma json_name_nonempty: "json_name p \<Longrightarrow> p \<noteq> []"
  by (auto simp: json_name_def)

lemma open_w_Inr:
  assumes "open_w fs p = Inr fs1"
  shows "\<exists>f. files fs1 = (files fs)(p \<mapsto> f)"
    and "may_create fs1 = may_create fs"
    and "room fs1 = room fs"
    and "oplog fs1 = oplog fs @ [Write p]"
  using assms by (auto simp: open_w_def split: option.splits if_splits)

lemma set_content_fields:
  "may_create (set_content fs p s) = may_create fs"
  "room (set_content fs p s) = room fs"
  "oplog (set_content fs p s) = oplog fs"
  by (simp_all add: set_content_def)

lemma set_content_files:
  "files fs p = Some f \<Longrightarrow> files (set_content fs p s) = (files fs)(p \<mapsto> f\<lparr>content := s\<rparr>)"
  by (simp add: set_content_def)

text \<open>
  A call of \<^verbatim>\<open>_json_dump_minified\<close> leaves the file system as it was, with the error of
  the failed opening, or it opened the file: then the file alone has changed, and the
  opening is logged.
\<close>

lemma open_w_set_content:
  assumes "open_w fs p = Inr fs1"
  shows "\<exists>g. files (set_content fs1 p s) = (files fs)(p \<mapsto> g)"
    and "may_create (set_content fs1 p s) = may_create fs"
    and "room (set_content fs1 p s) = room fs"
    and "oplog (set_content fs1 p s) = oplog fs @ [Write p]"
proof -
  from open_w_Inr(1)[OF assms] obtain f where f: "files fs1 = (files fs)(p \<mapsto> f)" ..
  then have "files fs1 p = Some f" by simp
  from set_content_files[OF this, of s] f
  have "files (set_content fs1 p s) = (files fs)(p \<mapsto> f\<lparr>content := s\<rparr>)" by simp
  then show "\<exists>g. files (set_content fs1 p s) = (files fs)(p \<mapsto> g)" ..
  show "may_create (set_content fs1 p s) = may_create fs"
    using open_w_Inr(2)[OF assms] by (simp add: set_content_fields)
  show "room (set_content fs1 p s) = room fs"
    using open_w_Inr(3)[OF assms] by (simp add: set_content_fields)
  show "oplog (set_content fs1 p s) = oplog fs @ [Write p]"
    using open_w_Inr(4)[OF assms] by (simp add: set_content_fields)
qed

lemma json_dump_minified_effects:
  "(\<exists>e. json_dump_minified env fs obj p = DumpOSError e fs) \<or>
   (\<exists>fs2. (json_dump_minified env fs obj p = Dumped fs2 \<or>
            json_dump_minified env fs obj p = DumpRaised fs2 \<or>
            json_dump_minified env fs obj p = DumpOSError NoSpaceError fs2) \<and>
      (\<exists>g. files fs2 = (files fs)(p \<mapsto> g)) \<and>
      may_create fs2 = may_create fs \<and> room fs2 = room fs \<and>
      oplog fs2 = oplog fs @ [Write p])"
proof (cases "open_w fs p")
  case (Inl e)
  then show ?thesis by (simp add: json_dump_minified_def)
next
  case (Inr fs1)
  note sc = open_w_set_content[OF Inr]
  show ?thesis
  proof (cases "json_dumps env obj")
    case (Dumps s)
    show ?thesis
      using sc[of s] sc[of "written fs p s"]
      by (simp add: json_dump_minified_def Inr Dumps)
  next
    case (DumpRaises s)
    show ?thesis
      using sc[of s] sc[of "written fs p s"]
      by (simp add: json_dump_minified_def Inr DumpRaises)
  qed
qed

text \<open>
  A call of \<^verbatim>\<open>copy2\<close> leaves the file system as it was, with an error, or it opened the
  destination: then the destination alone has changed, the copy is logged, and the
  destination is the source when the call returns.
\<close>

lemma copy2_effects:
  assumes "copy2 fs src dst = (e, fs1)"
  shows "(fs1 = fs \<and> e \<noteq> None) \<or>
    (\<exists>f g. files fs src = Some f \<and> files fs1 = (files fs)(dst \<mapsto> g) \<and> (e = None \<longrightarrow> g = f)) \<and>
    may_create fs1 = may_create fs \<and> room fs1 = room fs \<and>
    oplog fs1 = oplog fs @ [Copy src dst]"
  using assms by (auto simp: copy2_def split: option.splits if_splits)

text \<open>
  Every call of \<^verbatim>\<open>process_file\<close> ends in one of these ways: nothing is changed; the
  copy to the backup path opened its destination, and either the call ends there or the
  copy is complete and the file is opened for writing; a backup exists (or none is asked
  for) and the file is opened for writing.
\<close>

lemma process_file_effects:
  assumes "process_file env fs p root_dir id_map chg apply_changes backup mc = (r, fs', chg')"
  shows "fs' = fs \<or>
    (apply_changes \<and> backup \<and> files fs (backup_path p) = None \<and>
       (\<exists>f g fs1. files fs p = Some f \<and> files fs1 = (files fs)(backup_path p \<mapsto> g) \<and>
          may_create fs1 = may_create fs \<and> room fs1 = room fs \<and>
          oplog fs1 = oplog fs @ [Copy p (backup_path p)] \<and>
          (fs' = fs1 \<or>
           g = f \<and> (\<exists>h. files fs' = (files fs1)(p \<mapsto> h)) \<and>
           may_create fs' = may_create fs \<and> room fs' = room fs \<and>
           oplog fs' = oplog fs1 @ [Write p]))) \<or>
    (apply_changes \<and> (backup \<longrightarrow> files fs (backup_path p) \<noteq> None) \<and>
       (\<exists>h. files fs' = (files fs)(p \<mapsto> h)) \<and>
       may_create fs' = may_create fs \<and> room fs' = room fs \<and>
       oplog fs' = oplog fs @ [Write p])"
proof (cases "read_text fs p")
  case (Inl e)
  from process_file_read_error[OF Inl] assms show ?thesis by simp
next
  case (Inr body)
  show ?thesis
  proof (cases "json_loads env body")
    case LoadRaises
    from process_file_load_raises[OF Inr LoadRaises] assms show ?thesis by simp
  next
    case (JSONDecodeError msg)
    from process_file_invalid_json[OF Inr JSONDecodeError] assms show ?thesis by simp
  next
    case (Loads v)
    show ?thesis
    proof (cases "\<exists>kvs. v = JObject kvs")
      case False
      then have "\<forall>kvs. v \<noteq> JObject kvs" by simp
      from process_file_not_object_eq[OF Inr Loads this] assms show ?thesis by simp
    next
      case True
      then obtain kvs where v: "v = JObject kvs" ..
      note l = Loads[unfolded v]
      show ?thesis
      proof (cases "map_of kvs ''map'' = Some (JString mc)")
        case False
        from process_file_other_map[OF Inr l False] assms show ?thesis by simp
      next
        case True
        obtain obj' n chg1 where
          rp: "replace_ids_in_itemset env (JObject kvs) id_map chg
                 (champion_name_from_path root_dir p) = (obj', n, chg1)"
          by (metis prod_cases3)
        note pc = process_file_candidate[OF Inr l True rp, of apply_changes backup]
        show ?thesis
        proof (cases "n \<noteq> 0 \<and> apply_changes")
          case False
          with pc assms show ?thesis by auto
        next
          case app: True
          show ?thesis
          proof (cases "backup \<and> \<not> path_exists fs (backup_path p)")
            case False
            then have bk: "backup \<longrightarrow> files fs (backup_path p) \<noteq> None"
              by (simp add: path_exists_def)
            from pc app False assms have
              pf: "(case json_dump_minified env fs obj' p of
                      DumpOSError e fs2 \<Rightarrow>
                        (Some (False, 0, ''I/O error: '' @ os_strerror env e p), fs2, chg1)
                    | DumpRaised fs2 \<Rightarrow> (None, fs2, chg1)
                    | Dumped fs2 \<Rightarrow> (Some (True, n, []), fs2, chg1)) = (r, fs', chg')"
              by auto
            from json_dump_minified_effects[of env fs obj' p] pf bk app
            show ?thesis by auto
          next
            case bkp: True
            then have nb: "files fs (backup_path p) = None" by (simp add: path_exists_def)
            obtain e fs1 where c: "copy2 fs p (backup_path p) = (e, fs1)" by (metis surj_pair)
            show ?thesis
            proof (cases e)
              case (Some err)
              from pc app bkp c Some assms have "fs' = fs1" by auto
              with copy2_effects[OF c] Some nb app bkp show ?thesis by auto
            next
              case None
              from pc app bkp c None assms have
                pf: "(case json_dump_minified env fs1 obj' p of
                      DumpOSError e fs2 \<Rightarrow>
                        (Some (False, 0, ''I/O error: '' @ os_strerror env e p), fs2, chg1)
                    | DumpRaised fs2 \<Rightarrow> (None, fs2, chg1)
                    | Dumped fs2 \<Rightarrow> (Some (True, n, []), fs2, chg1)) = (r, fs', chg')"
                by auto
              from copy2_effects[OF c] None obtain f where
                f: "files fs p = Some f" "files fs1 = (files fs)(backup_path p \<mapsto> f)"
                  "may_create fs1 = may_create fs" "room fs1 = room fs"
                  "oplog fs1 = oplog fs @ [Copy p (backup_path p)]"
                by auto
              from json_dump_minified_effects[of env fs1 obj' p] pf
              have "fs' = fs1 \<or>
                ((\<exists>h. files fs' = (files fs1)(p \<mapsto> h)) \<and>
                 may_create fs' = may_create fs1 \<and> room fs' = room fs1 \<and>
                 oplog fs' = oplog fs1 @ [Write p])"
                by auto
              then have "fs' = fs1 \<or>
                f = f \<and> (\<exists>h. files fs' = (files fs1)(p \<mapsto> h)) \<and>
                 may_create fs' = may_create fs \<and> room fs' = room fs \<and>
                 oplog fs' = oplog fs1 @ [Write p]"
                using f(3,4) by simp
              with f have "\<exists>f g fs1. files fs p = Some f \<and>
                  files fs1 = (files fs)(backup_path p \<mapsto> g) \<and>
                  may_create fs1 = may_create fs \<and> room fs1 = room fs \<and>
                  oplog fs1 = oplog fs @ [Copy p (backup_path p)] \<and>
                  (fs' = fs1 \<or>
                   g = f \<and> (\<exists>h. files fs' = (files fs1)(p \<mapsto> h)) \<and>
                   may_create fs' = may_create fs \<and> room fs' = room fs \<and>
                   oplog fs' = oplog fs1 @ [Write p])"
                by blast
              with nb app bkp show ?thesis by blast
            qed
          qed
        qed
      qed
    qed
  qed
qed

lemma process_file_frame:
  assumes "process_file env fs p root_dir id_map chg apply_changes backup mc = (r, fs', chg')"
  shows "may_create fs' = may_create fs"
    and "room fs' = room fs"
    and "q \<noteq> p \<Longrightarrow> q \<noteq> backup_path p \<Longrightarrow> files fs' q = files fs q"
proof -
  from process_file_effects[OF assms]
  show "may_create fs' = may_create fs" by auto
  from process_file_effects[OF assms]
  show "room fs' = room fs" by auto
  from process_file_effects[OF assms]
  show "files fs' q = files fs q" if "q \<noteq> p" "q \<noteq> backup_path p"
    using that by auto
qed

lemma process_file_dry_run:
  assumes "process_file env fs p root_dir id_map chg False backup mc = (r, fs', chg')"
  shows "fs' = fs"
  using process_file_effects[OF assms] by simp

section \<open>A file for another map\<close>

lemma run_step_frame:
  assumes "q \<noteq> p" "q \<noteq> backup_path p"
  shows "files (st_fs (run_step env root_dir id_map apply_changes backup mc st p)) q =
           files (st_fs st) q"
    and "q \<in> set (st_modified_files (run_step env root_dir id_map apply_changes backup mc st p))
           \<longleftrightarrow> q \<in> set (st_modified_files st)"
proof -
  obtain r fs' chg' where
    pf: "process_file env (st_fs st) p root_dir id_map (st_changes st) apply_changes backup mc =
           (r, fs', chg')"
    by (metis prod_cases3)
  have fr: "files fs' q = files (st_fs st) q"
    using process_file_frame(3)[OF pf assms] .
  show "files (st_fs (run_step env root_dir id_map apply_changes backup mc st p)) q =
           files (st_fs st) q"
    using fr by (cases r) (simp_all add: run_step_def pf Let_def split: prod.splits)
  show "q \<in> set (st_modified_files (run_step env root_dir id_map apply_changes backup mc st p))
           \<longleftrightarrow> q \<in> set (st_modified_files st)"
    using assms(1) by (cases r) (simp_all add: run_step_def pf Let_def split: prod.splits)
qed

lemma run_step_other_map:
  assumes "files (st_fs st) p = files fs p"
    "read_text fs p = Inr body" "json_loads env body = Loads (JObject kvs)"
    "map_of kvs ''map'' \<noteq> Some (JString mc)"
  shows "run_step env root_dir id_map apply_changes backup mc st p =
       st\<lparr>st_stats := (st_stats st)\<lparr>files_scanned := files_scanned (st_stats st) + 1\<rparr>\<rparr>"
proof -
  have r: "read_text (st_fs st) p = Inr body"
    using assms(1,2) by (simp add: read_text_def)
  have pf: "process_file env (st_fs st) p root_dir id_map (st_changes st) apply_changes backup mc =
       (Some (False, 0, []), st_fs st, st_changes st)"
    using r assms(3,4) by (rule process_file_other_map)
  from run_step_skip[OF pf] show ?thesis by simp
qed

lemma run_loop_other_map:
  assumes "json_name p"
    "read_text fs p = Inr body" "json_loads env body = Loads (JObject kvs)"
    "map_of kvs ''map'' \<noteq> Some (JString mc)"
    "files (st_fs st) p = files fs p"
  shows "files (st_fs (run_loop env root_dir id_map apply_changes backup mc st located)) p =
           files fs p \<and>
         (p \<in> set (st_modified_files (run_loop env root_dir id_map apply_changes backup mc st located))
            \<longleftrightarrow> p \<in> set (st_modified_files st))"
  using assms(5)
proof (induction located arbitrary: st)
  case Nil
  then show ?case by (simp add: run_loop_Nil)
next
  case (Cons q located)
  let ?st' = "run_step env root_dir id_map apply_changes backup mc st q"
  have step: "files (st_fs ?st') p = files fs p \<and>
      (p \<in> set (st_modified_files ?st') \<longleftrightarrow> p \<in> set (st_modified_files st))"
  proof (cases "q = p")
    case True
    then show ?thesis
      using run_step_other_map[OF Cons.prems assms(2,3,4)] Cons.prems by simp
  next
    case False
    then have "p \<noteq> q" by simp
    moreover have "p \<noteq> backup_path q" using backup_path_not_json[OF assms(1)] by metis
    ultimately show ?thesis using run_step_frame Cons.prems by simp
  qed
  from Cons.IH[of ?st'] step Cons.prems show ?case by (simp add: run_loop_Cons)
qed

text \<open>
  C5. For a file that is read and parsed to an object whose \<^verbatim>\<open>"map"\<close> value is not the
  expected string (or is missing), \<^verbatim>\<open>process_file\<close> returns \<^verbatim>\<open>(False, 0, "")\<close>
  whatever the flags and the identifier map, and returns the file system (its files and
  its log of writes and copies) and the ledger as they were. The iteration of
  \<^verbatim>\<open>run_fix\<close> on that file adds one to \<^verbatim>\<open>files_scanned\<close> and changes nothing else:
  not the candidate count, the modified count, the list of modified files, the warnings
  or the files. When the name of the file ends in \<^verbatim>\<open>.json\<close>, the file is as it was
  after the whole run, whatever paths were located and however the run ends, and is not
  among the modified files of the result.
\<close>

theorem process_file_other_map_skipped:
  assumes "read_text fs p = Inr body" "json_loads env body = Loads (JObject kvs)"
    "map_of kvs ''map'' \<noteq> Some (JString mc)"
  shows
    "process_file env fs p root_dir id_map chg apply_changes backup mc =
       (Some (False, 0, []), fs, chg) \<and>
     (\<forall>st. files (st_fs st) p = files fs p \<longrightarrow>
        run_step env root_dir id_map apply_changes backup mc st p =
          st\<lparr>st_stats := (st_stats st)\<lparr>files_scanned := files_scanned (st_stats st) + 1\<rparr>\<rparr>) \<and>
     (json_name p \<longrightarrow>
        (\<forall>located.
           files (snd (run_fix env fs located root_dir apply_changes backup mc)) p = files fs p \<and>
           (\<forall>res. fst (run_fix env fs located root_dir apply_changes backup mc) = Some res \<longrightarrow>
              p \<notin> set (modified_files res))))"
proof (intro conjI allI impI)
  show "process_file env fs p root_dir id_map chg apply_changes backup mc =
      (Some (False, 0, []), fs, chg)"
    using assms by (rule process_file_other_map)
next
  fix st :: run_state
  assume "files (st_fs st) p = files fs p"
  then show "run_step env root_dir id_map apply_changes backup mc st p =
          st\<lparr>st_stats := (st_stats st)\<lparr>files_scanned := files_scanned (st_stats st) + 1\<rparr>\<rparr>"
    using assms by (rule run_step_other_map)
next
  fix located
  assume j: "json_name p"
  have i: "files (st_fs (init_state fs)) p = files fs p" by (simp add: init_state_def)
  note rl = run_loop_other_map[OF j assms i, of root_dir "fst build_maps" apply_changes backup located]
  from rl show "files (snd (run_fix env fs located root_dir apply_changes backup mc)) p = files fs p"
    by (simp add: run_fix_def Let_def)
  fix res
  assume "fst (run_fix env fs located root_dir apply_changes backup mc) = Some res"
  then have "modified_files res =
      st_modified_files (run_loop env root_dir (fst build_maps) apply_changes backup mc
         (init_state fs) located)"
    by (auto simp: run_fix_def Let_def split: if_splits)
  with rl show "p \<notin> set (modified_files res)" by (simp add: init_state_def)
qed

theorem process_file_other_map_skipped_witness:
  "read_text (sample_fs [(zed_json, rw_file text_aram)]) zed_json = Inr text_aram \<and>
   json_loads sample_env text_aram = Loads json_aram \<and>
   json_name zed_json \<and>
   process_file sample_env (sample_fs [(zed_json, rw_file text_aram)]) zed_json root_dir0
       (fst build_maps) [] True True ''SR'' =
     (Some (False, 0, []), sample_fs [(zed_json, rw_file text_aram)], []) \<and>
   files (snd (run_fix sample_env (sample_fs [(zed_json, rw_file text_aram)]) [zed_json]
                 root_dir0 True True ''SR'')) zed_json =
     Some (rw_file text_aram) \<and>
   map_option stats
     (fst (run_fix sample_env (sample_fs [(zed_json, rw_file text_aram)]) [zed_json]
             root_dir0 True True ''SR'')) =
     Some \<lparr>files_scanned = 1, files_candidate_sr = 0, files_modified = 0, ids_replaced = 0\<rparr>"
proof -
  let ?fs = "sample_fs [(zed_json, rw_file text_aram)]"
  have r: "read_text ?fs zed_json = Inr text_aram" by (rule sample_read)
  have l: "json_loads sample_env text_aram =
      Loads (JObject [(''map'', JString ''ARAM''),
       (''blocks'', JArray [JObject [(''items'', JArray [JObject [(''id'', JString ''3003'')]])]])])"
    by (simp add: sample_loads json_aram_def)
  have m: "map_of [(''map'', JString ''ARAM''),
       (''blocks'', JArray [JObject [(''items'', JArray [JObject [(''id'', JString ''3003'')]])]])]
       ''map'' \<noteq> Some (JString ''SR'')" by simp
  have j: "json_name zed_json" by (simp add: json_name_def zed_json_def)
  note t = process_file_other_map_skipped[OF r l m, of root_dir0 "fst build_maps" "[]" True True]
  from t have pf: "process_file sample_env ?fs zed_json root_dir0 (fst build_maps) [] True True ''SR'' =
     (Some (False, 0, []), ?fs, [])" by blast
  from t j have fr: "files (snd (run_fix sample_env ?fs [zed_json] root_dir0 True True ''SR'')) zed_json =
     files ?fs zed_json" by blast
  from t have "run_step sample_env root_dir0 (fst build_maps) True True ''SR'' (init_state ?fs) zed_json =
     (init_state ?fs)\<lparr>st_stats := (st_stats (init_state ?fs))\<lparr>files_scanned :=
        files_scanned (st_stats (init_state ?fs)) + 1\<rparr>\<rparr>"
    by (simp add: init_state_def)
  then have st: "map_option stats (fst (run_fix sample_env ?fs [zed_json] root_dir0 True True ''SR'')) =
     Some \<lparr>files_scanned = 1, files_candidate_sr = 0, files_modified = 0, ids_replaced = 0\<rparr>"
    by (simp add: run_fix_def run_loop_def Let_def init_state_def)
  from r j pf fr st show ?thesis by (simp add: sample_loads sample_fs_def)
qed

section \<open>The backup is made before the file is written\<close>

lemma new_ops_same: "new_ops fs fs = []"
  by (simp add: new_ops_def)

lemma new_ops_append: "oplog fs' = oplog fs @ ops \<Longrightarrow> new_ops fs fs' = ops"
  by (simp add: new_ops_def)

lemma sample_dumps: "json_dumps sample_env json_sr_fixed = Dumps text_sr_fixed"
  by (simp add: sample_env_def sample_texts_def json_sr_def json_sr_fixed_def json_num_def
      json_aram_def)

lemma sample_process_sr:
  "replace_ids_in_itemset sample_env json_sr (fst build_maps) chg ''Ahri'' =
     (json_sr_fixed, 1, ledger_bump ''Ahri'' ''3003'' chg)"
  by (simp add: json_sr_def json_sr_fixed_def replace_ids_in_itemset_def replace_block_def
      replace_item_def Let_def py_str_def sample_id_map_3003 sample_id_map_9999)

lemma sample_champion:
  "champion_name_from_path root_dir0 ahri_json = ''Ahri''"
  "champion_name_from_path root_dir0 zed_json = ''Zed''"
  by (simp_all add: champion_name_from_path_def root_dir0_def ahri_json_def zed_json_def)

lemma sample_map_sr: "map_of [(''map'', JString ''SR''), kv] ''map'' = Some (JString ''SR'')"
  by simp

text \<open>
  C7 (amended). For a call of \<^verbatim>\<open>process_file\<close> that applies changes with backups enabled:
  the mutations it makes are none, or the copy to the backup path alone (the copy or the
  write then failed), or the copy followed by the write of the file, or the write alone.
  When the file is written, a backup exists afterwards; if none existed before, the copy
  was logged strictly before the write and the backup equals the file as it was before the
  call; if one existed, the write is the only mutation. A backup that existed before the
  call is left as it was, whatever it held. Without a logged write the file is as it was.
\<close>

theorem process_file_backup_before_write:
  assumes "process_file env fs p root_dir id_map chg True True mc = (r, fs', chg')"
  shows
    "(new_ops fs fs' = [] \<or> new_ops fs fs' = [Copy p (backup_path p)] \<or>
      new_ops fs fs' = [Copy p (backup_path p), Write p] \<or> new_ops fs fs' = [Write p]) \<and>
     (Write p \<in> set (new_ops fs fs') \<longrightarrow>
        files fs' (backup_path p) \<noteq> None \<and>
        (files fs (backup_path p) = None \<longrightarrow>
           new_ops fs fs' = [Copy p (backup_path p), Write p] \<and>
           files fs' (backup_path p) = files fs p) \<and>
        (files fs (backup_path p) \<noteq> None \<longrightarrow> new_ops fs fs' = [Write p])) \<and>
     (files fs (backup_path p) \<noteq> None \<longrightarrow> files fs' (backup_path p) = files fs (backup_path p)) \<and>
     (Write p \<notin> set (new_ops fs fs') \<longrightarrow> files fs' p = files fs p)"
proof -
  let ?bp = "backup_path p"
  have ne: "?bp \<noteq> p" by (rule backup_path_neq)
  from process_file_effects[OF assms]
  consider (same) "fs' = fs"
    | (copy_only) f g where "files fs ?bp = None" "files fs p = Some f"
        "files fs' = (files fs)(?bp \<mapsto> g)" "oplog fs' = oplog fs @ [Copy p ?bp]"
    | (copy_write) f h where "files fs ?bp = None" "files fs p = Some f"
        "files fs' = (files fs)(?bp \<mapsto> f, p \<mapsto> h)"
        "oplog fs' = oplog fs @ [Copy p ?bp, Write p]"
    | (write_only) h where "files fs ?bp \<noteq> None" "files fs' = (files fs)(p \<mapsto> h)"
        "oplog fs' = oplog fs @ [Write p]"
    by auto
  then show ?thesis
  proof cases
    case same
    then show ?thesis by (simp add: new_ops_same)
  next
    case copy_only
    have ops: "new_ops fs fs' = [Copy p ?bp]"
      using copy_only(4) by (simp add: new_ops_append)
    show ?thesis using ops copy_only(1,2,3) ne by simp
  next
    case copy_write
    have ops: "new_ops fs fs' = [Copy p ?bp, Write p]"
      using copy_write(4) by (simp add: new_ops_append)
    have "files fs' ?bp = files fs p" using copy_write(2,3) ne by simp
    then show ?thesis using ops copy_write(1,2) by simp
  next
    case write_only
    have ops: "new_ops fs fs' = [Write p]"
      using write_only(3) by (simp add: new_ops_append)
    have "files fs' ?bp = files fs ?bp" using write_only(2) ne by simp
    then show ?thesis using ops write_only(1) by simp
  qed
qed

lemma sample_process_fresh:
  "process_file sample_env (sample_fs [(ahri_json, rw_file text_sr)]) ahri_json root_dir0
      (fst build_maps) [] True True ''SR'' =
   (Some (True, 1, []),
    \<lparr>files = (map_of [(ahri_json, rw_file text_sr)])
        (backup_path ahri_json \<mapsto> rw_file text_sr, ahri_json \<mapsto> rw_file text_sr_fixed),
     may_create = (\<lambda>p. True), room = (\<lambda>p. None),
     oplog = [Copy ahri_json (backup_path ahri_json), Write ahri_json]\<rparr>,
    [(''Ahri'', [(''3003'', 1)])])"
proof -
  let ?fs = "sample_fs [(ahri_json, rw_file text_sr)]"
  have r: "read_text ?fs ahri_json = Inr text_sr" by (rule sample_read)
  have l: "json_loads sample_env text_sr =
      Loads (JObject [(''map'', JString ''SR''),
       (''blocks'', JArray [JObject [(''items'',
          JArray [JObject [(''id'', JString ''3003'')], JObject [(''id'', JString ''9999'')]])]])])"
    by (simp add: sample_loads json_sr_def)
  have rp: "replace_ids_in_itemset sample_env
      (JObject [(''map'', JString ''SR''),
       (''blocks'', JArray [JObject [(''items'',
          JArray [JObject [(''id'', JString ''3003'')], JObject [(''id'', JString ''9999'')]])]])])
      (fst build_maps) [] (champion_name_from_path root_dir0 ahri_json) =
      (json_sr_fixed, 1, [(''Ahri'', [(''3003'', 1)])])"
    using sample_process_sr[of "[]"] by (simp add: sample_champion json_sr_def ledger_bump_def)
  have nb: "files ?fs (backup_path ahri_json) = None"
    using backup_path_neq[of ahri_json] by (simp add: sample_fs_def)
  show ?thesis
    unfolding process_file_candidate[OF r l sample_map_sr rp]
    using nb backup_path_neq[of ahri_json]
    by (simp add: path_exists_def copy2_def json_dump_minified_def open_w_def set_content_def
        fits_def sample_fs_def rw_file_def sample_dumps)
qed

theorem process_file_backup_before_write_witness:
  "process_file sample_env (sample_fs [(ahri_json, rw_file text_sr)]) ahri_json root_dir0
      (fst build_maps) [] True True ''SR'' =
   (Some (True, 1, []),
    \<lparr>files = (map_of [(ahri_json, rw_file text_sr)])
        (backup_path ahri_json \<mapsto> rw_file text_sr, ahri_json \<mapsto> rw_file text_sr_fixed),
     may_create = (\<lambda>p. True), room = (\<lambda>p. None),
     oplog = [Copy ahri_json (backup_path ahri_json), Write ahri_json]\<rparr>,
    [(''Ahri'', [(''3003'', 1)])]) \<and>
   files (sample_fs [(ahri_json, rw_file text_sr)]) (backup_path ahri_json) = None \<and>
   new_ops (sample_fs [(ahri_json, rw_file text_sr)])
     (fst (snd (process_file sample_env (sample_fs [(ahri_json, rw_file text_sr)]) ahri_json
        root_dir0 (fst build_maps) [] True True ''SR''))) =
     [Copy ahri_json (backup_path ahri_json), Write ahri_json] \<and>
   files (fst (snd (process_file sample_env (sample_fs [(ahri_json, rw_file text_sr)]) ahri_json
        root_dir0 (fst build_maps) [] True True ''SR''))) (backup_path ahri_json) =
     Some (rw_file text_sr)"
proof -
  let ?fs = "sample_fs [(ahri_json, rw_file text_sr)]"
  let ?fs' = "\<lparr>files = (map_of [(ahri_json, rw_file text_sr)])
        (backup_path ahri_json \<mapsto> rw_file text_sr, ahri_json \<mapsto> rw_file text_sr_fixed),
     may_create = (\<lambda>p. True), room = (\<lambda>p. None),
     oplog = [Copy ahri_json (backup_path ahri_json), Write ahri_json]\<rparr>"
  note pf = sample_process_fresh
  have nb: "files ?fs (backup_path ahri_json) = None"
    using backup_path_neq[of ahri_json] by (simp add: sample_fs_def)
  have w: "Write ahri_json \<in> set (new_ops ?fs ?fs')"
    by (simp add: new_ops_def sample_fs_def)
  from process_file_backup_before_write[OF pf] w nb
  have "new_ops ?fs ?fs' = [Copy ahri_json (backup_path ahri_json), Write ahri_json] \<and>
        files ?fs' (backup_path ahri_json) = files ?fs ahri_json"
    by blast
  then show ?thesis
    unfolding pf using nb by (simp add: sample_fs_def)
qed

text \<open>
  The claim as stated fails where a backup exists that differs from the file: the file is
  written, and the backup afterwards is the old backup, not the file as it was before the
  run.
\<close>

theorem process_file_stale_backup_counterexample:
  "files stale_backup_fs ahri_json = Some (rw_file text_sr) \<and>
   files stale_backup_fs (backup_path ahri_json) = Some (rw_file text_aram) \<and>
   fst (process_file sample_env stale_backup_fs ahri_json root_dir0 (fst build_maps) []
          True True ''SR'') = Some (True, 1, []) \<and>
   new_ops stale_backup_fs
     (fst (snd (process_file sample_env stale_backup_fs ahri_json root_dir0 (fst build_maps) []
          True True ''SR''))) = [Write ahri_json] \<and>
   files (fst (snd (process_file sample_env stale_backup_fs ahri_json root_dir0 (fst build_maps) []
          True True ''SR''))) ahri_json = Some (rw_file text_sr_fixed) \<and>
   files (fst (snd (process_file sample_env stale_backup_fs ahri_json root_dir0 (fst build_maps) []
          True True ''SR''))) (backup_path ahri_json) = Some (rw_file text_aram) \<and>
   content (rw_file text_aram) \<noteq> content (rw_file text_sr)"
proof -
  have r: "read_text stale_backup_fs ahri_json = Inr text_sr"
    by (simp add: stale_backup_fs_def sample_read)
  have l: "json_loads sample_env text_sr =
      Loads (JObject [(''map'', JString ''SR''),
       (''blocks'', JArray [JObject [(''items'',
          JArray [JObject [(''id'', JString ''3003'')], JObject [(''id'', JString ''9999'')]])]])])"
    by (simp add: sample_loads json_sr_def)
  have rp: "replace_ids_in_itemset sample_env
      (JObject [(''map'', JString ''SR''),
       (''blocks'', JArray [JObject [(''items'',
          JArray [JObject [(''id'', JString ''3003'')], JObject [(''id'', JString ''9999'')]])]])])
      (fst build_maps) [] (champion_name_from_path root_dir0 ahri_json) =
      (json_sr_fixed, 1, [(''Ahri'', [(''3003'', 1)])])"
    using sample_process_sr[of "[]"] by (simp add: sample_champion json_sr_def ledger_bump_def)
  have ne: "backup_path ahri_json \<noteq> ahri_json" by (rule backup_path_neq)
  have f: "files stale_backup_fs ahri_json = Some (rw_file text_sr)"
    "files stale_backup_fs (backup_path ahri_json) = Some (rw_file text_aram)"
    using ne by (simp_all add: stale_backup_fs_def sample_fs_def)
  have d: "content (rw_file text_aram) \<noteq> content (rw_file text_sr)"
    by (simp add: rw_file_def text_aram_def text_sr_def)
  show ?thesis
    unfolding process_file_candidate[OF r l sample_map_sr rp]
    using f d ne
    by (simp add: path_exists_def json_dump_minified_def open_w_def set_content_def fits_def
        stale_backup_fs_def sample_fs_def rw_file_def sample_dumps new_ops_def)
qed

section \<open>The counters of a run\<close>

text \<open>The six ways a file can go, whatever the flags.\<close>

lemma process_file_cases [case_names read_error load_raises invalid not_object other_map candidate]:
  obtains
    e where "read_text fs p = Inl e"
  | body where "read_text fs p = Inr body" "json_loads env body = LoadRaises"
  | body msg where "read_text fs p = Inr body" "json_loads env body = JSONDecodeError msg"
  | body v where "read_text fs p = Inr body" "json_loads env body = Loads v"
      "\<forall>kvs. v \<noteq> JObject kvs"
  | body kvs where "read_text fs p = Inr body" "json_loads env body = Loads (JObject kvs)"
      "map_of kvs ''map'' \<noteq> Some (JString mc)"
  | body kvs obj' n chg' where "read_text fs p = Inr body"
      "json_loads env body = Loads (JObject kvs)" "map_of kvs ''map'' = Some (JString mc)"
      "replace_ids_in_itemset env (JObject kvs) id_map chg (champion_name_from_path root_dir p) =
         (obj', n, chg')" "0 \<le> n"
proof (cases "read_text fs p")
  case (Inl e)
  then show ?thesis using that(1) by blast
next
  case r: (Inr body)
  show ?thesis
  proof (cases "json_loads env body")
    case LoadRaises
    then show ?thesis using that(2) r by blast
  next
    case (JSONDecodeError msg)
    then show ?thesis using that(3) r by blast
  next
    case l: (Loads v)
    show ?thesis
    proof (cases "\<exists>kvs. v = JObject kvs")
      case False
      then show ?thesis using that(4) r l by blast
    next
      case True
      then obtain kvs where v: "v = JObject kvs" by blast
      show ?thesis
      proof (cases "map_of kvs ''map'' = Some (JString mc)")
        case False
        then show ?thesis using that(5) r l v by blast
      next
        case True
        obtain obj' n chg' where rp:
          "replace_ids_in_itemset env (JObject kvs) id_map chg (champion_name_from_path root_dir p) =
             (obj', n, chg')" by (metis prod_cases3)
        have "0 \<le> n"
          using replace_ids_count_nonneg[of env "JObject kvs" id_map chg
              "champion_name_from_path root_dir p"] rp by simp
        then show ?thesis using that(6) r l v True rp by blast
      qed
    qed
  qed
qed

lemma process_file_result:
  assumes "process_file env fs p root_dir id_map chg apply_changes backup mc = (Some (c, n, e), fs', chg')"
  shows "0 \<le> n" and "\<not> c \<Longrightarrow> n = 0" and "c \<Longrightarrow> e = []" and "e = [] \<or> \<not> c"
proof -
  have "0 \<le> n \<and> (\<not> c \<longrightarrow> n = 0) \<and> (c \<longrightarrow> e = [])"
  proof (cases rule: process_file_cases[where fs=fs and p=p and env=env and mc=mc and id_map=id_map and chg=chg and root_dir=root_dir])
    case (read_error e)
    from process_file_read_error[OF this] assms show ?thesis by simp
  next
    case (load_raises body)
    from process_file_load_raises[OF this] assms show ?thesis by simp
  next
    case (invalid body msg)
    from process_file_invalid_json[OF this] assms show ?thesis by simp
  next
    case (not_object body v)
    from process_file_not_object_eq[OF this] assms show ?thesis by simp
  next
    case (other_map body kvs)
    from process_file_other_map[OF this] assms show ?thesis by simp
  next
    case (candidate body kvs obj' n' chg1)
    from process_file_candidate[OF candidate(1-4), of apply_changes backup] assms candidate(5)
    show ?thesis by (auto split: if_splits prod.splits option.splits dump_result.splits)
  qed
  then show "0 \<le> n" and "\<not> c \<Longrightarrow> n = 0" and "c \<Longrightarrow> e = []" and "e = [] \<or> \<not> c" by auto
qed


lemma run_step_stats:
  assumes "process_file env (st_fs st) p root_dir id_map (st_changes st) apply_changes backup mc =
             (Some (c, n, e), fs', chg')"
  shows "st_stats (run_step env root_dir id_map apply_changes backup mc st p) =
     \<lparr>files_scanned = files_scanned (st_stats st) + 1,
      files_candidate_sr = files_candidate_sr (st_stats st) + (if c then 1 else 0),
      files_modified = files_modified (st_stats st) + (if 0 < n then 1 else 0),
      ids_replaced = ids_replaced (st_stats st) + n\<rparr>"
    and "st_modified_files (run_step env root_dir id_map apply_changes backup mc st p) =
      (if 0 < n then st_modified_files st @ [p] else st_modified_files st)"
    and "st_fs (run_step env root_dir id_map apply_changes backup mc st p) = fs'"
    and "st_changes (run_step env root_dir id_map apply_changes backup mc st p) = chg'"
proof -
  note r = process_file_result[OF assms]
  show "st_stats (run_step env root_dir id_map apply_changes backup mc st p) =
     \<lparr>files_scanned = files_scanned (st_stats st) + 1,
      files_candidate_sr = files_candidate_sr (st_stats st) + (if c then 1 else 0),
      files_modified = files_modified (st_stats st) + (if 0 < n then 1 else 0),
      ids_replaced = ids_replaced (st_stats st) + n\<rparr>"
    using r by (cases c; cases "e = []") (auto simp: run_step_def assms Let_def)
  show "st_modified_files (run_step env root_dir id_map apply_changes backup mc st p) =
      (if 0 < n then st_modified_files st @ [p] else st_modified_files st)"
    using r by (cases c; cases "e = []") (auto simp: run_step_def assms Let_def)
  show "st_fs (run_step env root_dir id_map apply_changes backup mc st p) = fs'"
    by (simp add: run_step_def assms Let_def)
  show "st_changes (run_step env root_dir id_map apply_changes backup mc st p) = chg'"
    by (simp add: run_step_def assms Let_def)
qed



text \<open>
  A read-only file that holds an old identifier, with backups disabled.
\<close>

lemma read_only_sr:
  "files read_only_fs ahri_json = Some (ro_file text_sr)"
  "read_text read_only_fs ahri_json = Inr text_sr"
  by (simp_all add: read_only_fs_def sample_fs_def read_text_def ro_file_def)

lemma sample_sr_walk:
  "json_loads sample_env text_sr =
      Loads (JObject [(''map'', JString ''SR''),
       (''blocks'', JArray [JObject [(''items'',
          JArray [JObject [(''id'', JString ''3003'')], JObject [(''id'', JString ''9999'')]])]])])"
  "replace_ids_in_itemset sample_env
      (JObject [(''map'', JString ''SR''),
       (''blocks'', JArray [JObject [(''items'',
          JArray [JObject [(''id'', JString ''3003'')], JObject [(''id'', JString ''9999'')]])]])])
      (fst build_maps) chg (champion_name_from_path root_dir0 ahri_json) =
      (json_sr_fixed, 1, ledger_bump ''Ahri'' ''3003'' chg)"
  using sample_process_sr[of chg] by (simp_all add: sample_loads sample_champion json_sr_def)

lemma read_only_dry:
  "process_file sample_env (st_fs (init_state read_only_fs)) ahri_json root_dir0 (fst build_maps)
      (st_changes (init_state read_only_fs)) False False ''SR'' =
   (Some (True, 1, []), read_only_fs, [(''Ahri'', [(''3003'', 1)])])"
  using process_file_candidate[OF read_only_sr(2) sample_sr_walk(1) sample_map_sr sample_sr_walk(2),
      of "[]" False False]
  by (simp add: init_state_def ledger_bump_def)

lemma read_only_apply:
  "process_file sample_env (st_fs (init_state read_only_fs)) ahri_json root_dir0 (fst build_maps)
      (st_changes (init_state read_only_fs)) True False ''SR'' =
   (Some (False, 0, ''I/O error: [Errno 13] Permission denied''), read_only_fs,
    [(''Ahri'', [(''3003'', 1)])])"
  using process_file_candidate[OF read_only_sr(2) sample_sr_walk(1) sample_map_sr sample_sr_walk(2),
      of "[]" True False] read_only_sr(1)
  by (simp add: init_state_def ledger_bump_def json_dump_minified_def open_w_def ro_file_def
      sample_env_def)


section \<open>Bounds and monotonicity of the statistics\<close>

lemma stats_le_refl: "stats_le s s"
  by (simp add: stats_le_def)

lemma stats_le_trans: "stats_le s t \<Longrightarrow> stats_le t u \<Longrightarrow> stats_le s u"
  by (auto simp: stats_le_def)

lemma run_step_stats_ok:
  assumes "stats_ok (st_stats st)"
  shows "stats_ok (st_stats (run_step env root_dir id_map apply_changes backup mc st p))"
    and "stats_le (st_stats st) (st_stats (run_step env root_dir id_map apply_changes backup mc st p))"
    and "files_scanned (st_stats (run_step env root_dir id_map apply_changes backup mc st p)) =
           files_scanned (st_stats st) + 1"
proof -
  obtain r fs' chg' where
    pf: "process_file env (st_fs st) p root_dir id_map (st_changes st) apply_changes backup mc =
           (r, fs', chg')"
    by (metis prod_cases3)
  have "stats_ok (st_stats (run_step env root_dir id_map apply_changes backup mc st p)) \<and>
    stats_le (st_stats st) (st_stats (run_step env root_dir id_map apply_changes backup mc st p)) \<and>
    files_scanned (st_stats (run_step env root_dir id_map apply_changes backup mc st p)) =
           files_scanned (st_stats st) + 1"
  proof (cases r)
    case None
    from run_step_raises[OF pf[unfolded None]] assms show ?thesis
      by (simp add: stats_ok_def stats_le_def)
  next
    case (Some t)
    obtain c n e where t: "t = (c, n, e)" by (metis prod_cases3)
    note pf' = pf[unfolded Some t]
    note r = process_file_result[OF pf']
    note s = run_step_stats(1)[OF pf']
    have "stats_ok (st_stats (run_step env root_dir id_map apply_changes backup mc st p))"
      using assms r(1,2) by (cases c) (auto simp: s stats_ok_def)
    moreover have "stats_le (st_stats st)
        (st_stats (run_step env root_dir id_map apply_changes backup mc st p))"
      using r(1) by (simp add: s stats_le_def)
    moreover have "files_scanned (st_stats (run_step env root_dir id_map apply_changes backup mc st p)) =
           files_scanned (st_stats st) + 1"
      by (simp add: s)
    ultimately show ?thesis by simp
  qed
  then show "stats_ok (st_stats (run_step env root_dir id_map apply_changes backup mc st p))"
    and "stats_le (st_stats st) (st_stats (run_step env root_dir id_map apply_changes backup mc st p))"
    and "files_scanned (st_stats (run_step env root_dir id_map apply_changes backup mc st p)) =
           files_scanned (st_stats st) + 1"
    by simp_all
qed

text \<open>
  The body of the loop is entered on at most every located path; on the first \<open>k\<close> of
  them no exception has left the loop when the body is entered more than \<open>k\<close> times; and
  it is entered on every located path when no exception leaves the loop.
\<close>

lemma iterations_le:
  "iterations env root_dir id_map apply_changes backup mc st located \<le> length located"
  by (induction located arbitrary: st) simp_all

lemma iterations_not_raised:
  "k < iterations env root_dir id_map apply_changes backup mc st located \<Longrightarrow>
   \<not> st_raised (run_loop env root_dir id_map apply_changes backup mc st (take k located))"
proof (induction located arbitrary: st k)
  case Nil
  then show ?case by simp
next
  case (Cons p ps)
  from Cons.prems have nr: "\<not> st_raised st" by (auto split: if_splits)
  show ?case
  proof (cases k)
    case 0
    with nr show ?thesis by (simp add: run_loop_Nil)
  next
    case (Suc k')
    with Cons.prems nr have
      "k' < iterations env root_dir id_map apply_changes backup mc
              (run_step env root_dir id_map apply_changes backup mc st p) ps"
      by simp
    from Cons.IH[OF this] nr Suc show ?thesis by (simp add: run_loop_Cons)
  qed
qed

lemma iterations_all:
  "\<not> st_raised (run_loop env root_dir id_map apply_changes backup mc st located) \<Longrightarrow>
   iterations env root_dir id_map apply_changes backup mc st located = length located"
proof (induction located arbitrary: st)
  case Nil
  show ?case by simp
next
  case (Cons p ps)
  have nr: "\<not> st_raised st"
  proof
    assume "st_raised st"
    then have "run_loop env root_dir id_map apply_changes backup mc st (p # ps) = st"
      by (rule run_loop_raised)
    with Cons.prems \<open>st_raised st\<close> show False by simp
  qed
  with Cons.prems have "\<not> st_raised (run_loop env root_dir id_map apply_changes backup mc
      (run_step env root_dir id_map apply_changes backup mc st p) ps)"
    by (simp add: run_loop_Cons)
  from Cons.IH[OF this] nr show ?case by simp
qed

lemma stats_after_0:
  "stats_after env root_dir id_map apply_changes backup mc fs located 0 =
     \<lparr>files_scanned = 0, files_candidate_sr = 0, files_modified = 0, ids_replaced = 0\<rparr>"
  by (simp add: stats_after_def run_loop_Nil init_state_def)

lemma stats_after_Suc:
  assumes "k < iterations env root_dir id_map apply_changes backup mc (init_state fs) located"
  shows "stats_after env root_dir id_map apply_changes backup mc fs located (Suc k) =
     st_stats (run_step env root_dir id_map apply_changes backup mc
       (run_loop env root_dir id_map apply_changes backup mc (init_state fs) (take k located))
       (located ! k))"
proof -
  have "k < length located"
    using assms iterations_le[of env root_dir id_map apply_changes backup mc "init_state fs" located]
    by simp
  then show ?thesis
    using iterations_not_raised[OF assms]
    by (simp add: stats_after_def take_Suc_conv_app_nth run_loop_snoc)
qed

lemma stats_after_ok:
  "k \<le> iterations env root_dir id_map apply_changes backup mc (init_state fs) located \<Longrightarrow>
   stats_ok (stats_after env root_dir id_map apply_changes backup mc fs located k) \<and>
   files_scanned (stats_after env root_dir id_map apply_changes backup mc fs located k) = int k"
proof (induction k)
  case 0
  show ?case by (simp add: stats_after_0 stats_ok_def)
next
  case (Suc k)
  then have k: "k < iterations env root_dir id_map apply_changes backup mc (init_state fs) located" and
    ih: "stats_ok (stats_after env root_dir id_map apply_changes backup mc fs located k)"
      "files_scanned (stats_after env root_dir id_map apply_changes backup mc fs located k) = int k"
    by simp_all
  let ?st = "run_loop env root_dir id_map apply_changes backup mc (init_state fs) (take k located)"
  have ok: "stats_ok (st_stats ?st)" using ih(1) by (simp add: stats_after_def)
  from run_step_stats_ok(1,3)[OF ok, of env root_dir id_map apply_changes backup mc "located ! k"] ih(2)
  show ?case unfolding stats_after_Suc[OF k] by (simp add: stats_after_def)
qed

lemma stats_after_step:
  assumes "k < iterations env root_dir id_map apply_changes backup mc (init_state fs) located"
  shows "stats_le (stats_after env root_dir id_map apply_changes backup mc fs located k)
           (stats_after env root_dir id_map apply_changes backup mc fs located (Suc k))"
proof -
  let ?st = "run_loop env root_dir id_map apply_changes backup mc (init_state fs) (take k located)"
  have "k \<le> iterations env root_dir id_map apply_changes backup mc (init_state fs) located"
    using assms by simp
  then have ok: "stats_ok (st_stats ?st)"
    using stats_after_ok[of k env root_dir id_map apply_changes backup mc fs located]
    by (simp add: stats_after_def)
  from run_step_stats_ok(2)[OF ok, of env root_dir id_map apply_changes backup mc "located ! k"]
  show ?thesis unfolding stats_after_Suc[OF assms] by (simp add: stats_after_def)
qed

lemma stats_after_mono:
  "j \<le> k \<Longrightarrow>
   k \<le> iterations env root_dir id_map apply_changes backup mc (init_state fs) located \<Longrightarrow>
   stats_le (stats_after env root_dir id_map apply_changes backup mc fs located j)
     (stats_after env root_dir id_map apply_changes backup mc fs located k)"
proof (induction k)
  case 0
  then show ?case by (simp add: stats_le_refl)
next
  case (Suc k)
  show ?case
  proof (cases "j = Suc k")
    case True
    then show ?thesis by (simp add: stats_le_refl)
  next
    case False
    with Suc.prems have "j \<le> k"
      "k \<le> iterations env root_dir id_map apply_changes backup mc (init_state fs) located"
      "k < iterations env root_dir id_map apply_changes backup mc (init_state fs) located"
      by simp_all
    from Suc.IH[OF this(1,2)] stats_after_step[OF this(3)] show ?thesis
      by (rule stats_le_trans)
  qed
qed

lemma run_fix_returns:
  assumes "fst (run_fix env fs located root_dir apply_changes backup mc) = Some res"
  shows "iterations env root_dir (fst build_maps) apply_changes backup mc (init_state fs) located =
           length located"
    and "stats res =
           stats_after env root_dir (fst build_maps) apply_changes backup mc fs located (length located)"
proof -
  let ?st = "run_loop env root_dir (fst build_maps) apply_changes backup mc (init_state fs) located"
  from assms have nr: "\<not> st_raised ?st" and res: "stats res = st_stats ?st"
    by (auto simp: run_fix_def Let_def split: if_splits)
  from iterations_all[OF nr]
  show "iterations env root_dir (fst build_maps) apply_changes backup mc (init_state fs) located =
           length located" .
  from res show "stats res =
      stats_after env root_dir (fst build_maps) apply_changes backup mc fs located (length located)"
    by (simp add: stats_after_def)
qed

text \<open>
  C9. After each number \<open>k\<close> of iterations of the loop of \<^verbatim>\<open>run_fix\<close>, up to the number
  of located paths on which the body is entered (all of them, unless an exception leaves
  the loop): \<^verbatim>\<open>files_scanned\<close> is \<open>k\<close>, one for every located path whatever became of
  it; \<^verbatim>\<open>0 \<le> files_modified \<le> files_candidate \<le> files_scanned\<close> and
  \<^verbatim>\<open>0 \<le> ids_replaced\<close>; and each of the four counters is at least what it was after
  any smaller number of iterations. When \<^verbatim>\<open>run_fix\<close> returns a result, the body was
  entered on every located path and the statistics of the result are those after the
  last iteration, so the bounds hold of the result too.
\<close>

theorem run_fix_stats_monotone:
  "(\<forall>k\<le>iterations env root_dir id_map apply_changes backup mc (init_state fs) located.
      files_scanned (stats_after env root_dir id_map apply_changes backup mc fs located k) = int k \<and>
      stats_ok (stats_after env root_dir id_map apply_changes backup mc fs located k) \<and>
      (\<forall>j\<le>k. stats_le (stats_after env root_dir id_map apply_changes backup mc fs located j)
                 (stats_after env root_dir id_map apply_changes backup mc fs located k))) \<and>
   (\<forall>res. fst (run_fix env fs located root_dir apply_changes backup mc) = Some res \<longrightarrow>
      iterations env root_dir (fst build_maps) apply_changes backup mc (init_state fs) located =
        length located \<and>
      stats res =
        stats_after env root_dir (fst build_maps) apply_changes backup mc fs located (length located) \<and>
      stats_ok (stats res) \<and>
      files_scanned (stats res) = int (length located))"
proof (intro conjI allI impI)
  fix k
  assume k: "k \<le> iterations env root_dir id_map apply_changes backup mc (init_state fs) located"
  from stats_after_ok[OF k]
  show "files_scanned (stats_after env root_dir id_map apply_changes backup mc fs located k) = int k"
    and "stats_ok (stats_after env root_dir id_map apply_changes backup mc fs located k)"
    by simp_all
  fix j assume "j \<le> k"
  from stats_after_mono[OF this k]
  show "stats_le (stats_after env root_dir id_map apply_changes backup mc fs located j)
          (stats_after env root_dir id_map apply_changes backup mc fs located k)" .
next
  fix res
  assume r: "fst (run_fix env fs located root_dir apply_changes backup mc) = Some res"
  note it = run_fix_returns(1)[OF r]
  note st = run_fix_returns(2)[OF r]
  show "iterations env root_dir (fst build_maps) apply_changes backup mc (init_state fs) located =
        length located" by (rule it)
  show "stats res =
      stats_after env root_dir (fst build_maps) apply_changes backup mc fs located (length located)"
    by (rule st)
  have "length located \<le>
      iterations env root_dir (fst build_maps) apply_changes backup mc (init_state fs) located"
    using it by simp
  from stats_after_ok[OF this]
  show "stats_ok (stats res)" and "files_scanned (stats res) = int (length located)"
    unfolding st by simp_all
qed

lemma sample_dry_sr:
  assumes "read_text fs ahri_json = Inr text_sr"
  shows "process_file sample_env fs ahri_json root_dir0 (fst build_maps) chg False backup ''SR'' =
           (Some (True, 1, []), fs, ledger_bump ''Ahri'' ''3003'' chg)"
proof -
  have l: "json_loads sample_env text_sr =
      Loads (JObject [(''map'', JString ''SR''),
       (''blocks'', JArray [JObject [(''items'',
          JArray [JObject [(''id'', JString ''3003'')], JObject [(''id'', JString ''9999'')]])]])])"
    by (simp add: sample_loads json_sr_def)
  have rp: "replace_ids_in_itemset sample_env
      (JObject [(''map'', JString ''SR''),
       (''blocks'', JArray [JObject [(''items'',
          JArray [JObject [(''id'', JString ''3003'')], JObject [(''id'', JString ''9999'')]])]])])
      (fst build_maps) chg (champion_name_from_path root_dir0 ahri_json) =
      (json_sr_fixed, 1, ledger_bump ''Ahri'' ''3003'' chg)"
    using sample_process_sr[of chg] by (simp add: sample_champion json_sr_def)
  show ?thesis
    unfolding process_file_candidate[OF assms l sample_map_sr rp] by simp
qed

lemma two_files_read:
  "read_text two_files_fs ahri_json = Inr text_sr"
  "read_text two_files_fs zed_json = Inr text_aram"
  by (simp_all add: two_files_fs_def sample_fs_def read_text_def rw_file_def ahri_json_def
      zed_json_def)

lemma sample_aram_other_map:
  "json_loads sample_env text_aram =
      Loads (JObject [(''map'', JString ''ARAM''),
       (''blocks'', JArray [JObject [(''items'', JArray [JObject [(''id'', JString ''3003'')]])]])])"
  "map_of [(''map'', JString ''ARAM''),
       (''blocks'', JArray [JObject [(''items'', JArray [JObject [(''id'', JString ''3003'')]])]])]
       ''map'' \<noteq> Some (JString ''SR'')"
  by (simp_all add: sample_loads json_aram_def)

lemma two_files_dry_run:
  "run_loop sample_env root_dir0 (fst build_maps) False backup ''SR'' (init_state two_files_fs)
     [ahri_json, zed_json] =
   \<lparr>st_stats = \<lparr>files_scanned = 2, files_candidate_sr = 1, files_modified = 1, ids_replaced = 1\<rparr>,
    st_changes = [(''Ahri'', [(''3003'', 1)])], st_champions_seen = [''Ahri''],
    st_modified_files = [ahri_json], st_warnings = [], st_fs = two_files_fs, st_raised = False\<rparr>"
proof -
  let ?st0 = "init_state two_files_fs"
  have pf1: "process_file sample_env (st_fs ?st0) ahri_json root_dir0 (fst build_maps)
      (st_changes ?st0) False backup ''SR'' = (Some (True, 1, []), two_files_fs, [(''Ahri'', [(''3003'', 1)])])"
    using sample_dry_sr[OF two_files_read(1), of "[]" backup]
    by (simp add: init_state_def ledger_bump_def)
  let ?st1 = "run_step sample_env root_dir0 (fst build_maps) False backup ''SR'' ?st0 ahri_json"
  have s1: "?st1 =
   \<lparr>st_stats = \<lparr>files_scanned = 1, files_candidate_sr = 1, files_modified = 1, ids_replaced = 1\<rparr>,
    st_changes = [(''Ahri'', [(''3003'', 1)])], st_champions_seen = [''Ahri''],
    st_modified_files = [ahri_json], st_warnings = [], st_fs = two_files_fs, st_raised = False\<rparr>"
    unfolding run_step_candidate[OF pf1]
    by (simp add: init_state_def set_add_def sample_champion)
  have f: "files (st_fs ?st1) zed_json = files two_files_fs zed_json" by (simp add: s1)
  have s2: "run_step sample_env root_dir0 (fst build_maps) False backup ''SR'' ?st1 zed_json =
      ?st1\<lparr>st_stats := (st_stats ?st1)\<lparr>files_scanned := files_scanned (st_stats ?st1) + 1\<rparr>\<rparr>"
    using f two_files_read(2) sample_aram_other_map by (rule run_step_other_map)
  have nr0: "\<not> st_raised ?st0" by (simp add: init_state_def)
  have nr1: "\<not> st_raised ?st1" by (simp add: s1)
  have "run_loop sample_env root_dir0 (fst build_maps) False backup ''SR'' ?st0
      [ahri_json, zed_json] =
    run_step sample_env root_dir0 (fst build_maps) False backup ''SR'' ?st1 zed_json"
    using nr0 nr1 by (simp add: run_loop_Cons run_loop_Nil)
  then show ?thesis
    unfolding s2 unfolding s1 by simp
qed

lemma sample_champions_sorted:
  "sort_key (casefold sample_env) (set_order sample_env [''Ahri'']) = [''Ahri'']"
  by (simp add: sample_env_def)

theorem run_fix_stats_monotone_witness:
  "map_option stats
     (fst (run_fix sample_env two_files_fs [ahri_json, zed_json] root_dir0 False True ''SR'')) =
     Some \<lparr>files_scanned = 2, files_candidate_sr = 1, files_modified = 1, ids_replaced = 1\<rparr> \<and>
   iterations sample_env root_dir0 (fst build_maps) False True ''SR'' (init_state two_files_fs)
     [ahri_json, zed_json] = 2 \<and>
   stats_ok \<lparr>files_scanned = 2, files_candidate_sr = 1, files_modified = 1, ids_replaced = 1\<rparr> \<and>
   stats_le
     (stats_after sample_env root_dir0 (fst build_maps) False True ''SR'' two_files_fs
        [ahri_json, zed_json] 1)
     (stats_after sample_env root_dir0 (fst build_maps) False True ''SR'' two_files_fs
        [ahri_json, zed_json] 2)"
proof -
  let ?res = "\<lparr>stats = \<lparr>files_scanned = 2, files_candidate_sr = 1, files_modified = 1, ids_replaced = 1\<rparr>,
      changes = [(''Ahri'', [(''3003'', 1)])], modified_files = [ahri_json], warnings = [],
      root = root_dir0, map_code = ''SR'', champions_detected = [''Ahri'']\<rparr>"
  note t = run_fix_stats_monotone[of sample_env root_dir0 "fst build_maps" False True "''SR''"
      two_files_fs "[ahri_json, zed_json]"]
  have v: "fst (run_fix sample_env two_files_fs [ahri_json, zed_json] root_dir0 False True ''SR'') =
     Some ?res"
    by (simp add: run_fix_def Let_def two_files_dry_run sample_champions_sorted)
  from t v have it: "iterations sample_env root_dir0 (fst build_maps) False True ''SR''
      (init_state two_files_fs) [ahri_json, zed_json] = length [ahri_json, zed_json]"
    and ok: "stats_ok (stats ?res)"
    by blast+
  have "(2::nat) \<le> iterations sample_env root_dir0 (fst build_maps) False True ''SR''
      (init_state two_files_fs) [ahri_json, zed_json]" "(1::nat) \<le> 2"
    using it by simp_all
  with t have "stats_le
     (stats_after sample_env root_dir0 (fst build_maps) False True ''SR'' two_files_fs
        [ahri_json, zed_json] 1)
     (stats_after sample_env root_dir0 (fst build_maps) False True ''SR'' two_files_fs
        [ahri_json, zed_json] 2)" by blast
  with v ok it show ?thesis by simp
qed

section \<open>The dry run\<close>

lemma run_step_fs:
  assumes "process_file env (st_fs st) p root_dir id_map (st_changes st) apply_changes backup mc =
             (r, fs', chg')"
  shows "st_fs (run_step env root_dir id_map apply_changes backup mc st p) = fs'"
    and "st_changes (run_step env root_dir id_map apply_changes backup mc st p) = chg'"
  by (cases r; simp add: run_step_def assms Let_def split: prod.splits)+

lemma run_loop_dry_fs:
  "st_fs (run_loop env root_dir id_map False backup mc st located) = st_fs st"
proof (induction located arbitrary: st)
  case Nil
  show ?case by (simp add: run_loop_Nil)
next
  case (Cons p located)
  obtain r fs' chg' where
    pf: "process_file env (st_fs st) p root_dir id_map (st_changes st) False backup mc =
           (r, fs', chg')"
    by (metis prod_cases3)
  have "st_fs (run_step env root_dir id_map False backup mc st p) = st_fs st"
    using run_step_fs(1)[OF pf] process_file_dry_run[OF pf] by simp
  with Cons.IH show ?case by (simp add: run_loop_Cons)
qed

lemma replace_ids_ledger_indep:
  "fst (replace_ids_in_itemset env obj id_map chg champ) =
     fst (replace_ids_in_itemset env obj id_map chg2 champ)"
  "fst (snd (replace_ids_in_itemset env obj id_map chg champ)) =
     fst (snd (replace_ids_in_itemset env obj id_map chg2 champ))"
proof -
  have "fst (replace_ids_in_itemset env obj id_map chg champ) =
          fst (replace_ids_in_itemset env obj id_map chg2 champ) \<and>
        fst (snd (replace_ids_in_itemset env obj id_map chg champ)) =
          fst (snd (replace_ids_in_itemset env obj id_map chg2 champ))"
  proof (cases "\<exists>kvs blocks. obj = JObject kvs \<and> map_of kvs ''blocks'' = Some (JArray blocks)")
    case True
    then show ?thesis by (auto simp: replace_ids_eq)
  next
    case False
    then have "replace_ids_in_itemset env obj id_map chg champ = (obj, 0, chg)"
      "replace_ids_in_itemset env obj id_map chg2 champ = (obj, 0, chg2)"
      by (intro replace_ids_no_blocks; auto)+
    then show ?thesis by simp
  qed
  then show "fst (replace_ids_in_itemset env obj id_map chg champ) =
     fst (replace_ids_in_itemset env obj id_map chg2 champ)"
  "fst (snd (replace_ids_in_itemset env obj id_map chg champ)) =
     fst (snd (replace_ids_in_itemset env obj id_map chg2 champ))" by simp_all
qed

text \<open>
  The value that an apply run has to write is the one the walk returns, whatever the
  ledger it starts from.
\<close>

lemma pending_write_candidate:
  assumes "read_text fs p = Inr body" "json_loads env body = Loads (JObject kvs)"
    "map_of kvs ''map'' = Some (JString mc)"
    "replace_ids_in_itemset env (JObject kvs) id_map chg (champion_name_from_path root_dir p) =
       (obj', n, chg')" "n \<noteq> 0"
  shows "pending_write env fs root_dir id_map mc p = Some obj'"
proof -
  obtain obj0 n0 chg0 where rp0:
    "replace_ids_in_itemset env (JObject kvs) id_map [] (champion_name_from_path root_dir p) =
       (obj0, n0, chg0)" by (metis prod_cases3)
  have "obj0 = obj'" "n0 = n"
    using replace_ids_ledger_indep[of env "JObject kvs" id_map "[]"
        "champion_name_from_path root_dir p" chg] rp0 assms(4) by simp_all
  with rp0 assms(1,2,3,5) show ?thesis by (simp add: pending_write_def)
qed

text \<open>
  On a file that the apply run finds as the dry run does, and can back up and overwrite
  if there is a value to write to it, the apply run returns the triple and the ledger of
  the dry run.
\<close>

lemma process_file_apply_as_dry:
  assumes same: "files fsa p = files fs0 p" "files fsa (backup_path p) = files fs0 (backup_path p)"
      "may_create fsa = may_create fs0" "room fsa = room fs0"
    and ws: "writes_succeed env fs0 root_dir id_map mc backup p"
  shows "fst (process_file env fsa p root_dir id_map chg True backup mc) =
           fst (process_file env fs0 p root_dir id_map chg False backup mc) \<and>
         snd (snd (process_file env fsa p root_dir id_map chg True backup mc)) =
           snd (snd (process_file env fs0 p root_dir id_map chg False backup mc))"
proof -
  have rd: "read_text fsa p = read_text fs0 p" using same(1) by (simp add: read_text_def)
  show ?thesis
  proof (cases rule: process_file_cases[where fs=fs0 and p=p and env=env and mc=mc
        and id_map=id_map and chg=chg and root_dir=root_dir])
    case (read_error e)
    then have "read_text fsa p = Inl e" using rd by simp
    from process_file_read_error[OF this] process_file_read_error[OF read_error]
    show ?thesis by simp
  next
    case (load_raises body)
    then have "read_text fsa p = Inr body" using rd by simp
    from process_file_load_raises[OF this load_raises(2)] process_file_load_raises[OF load_raises]
    show ?thesis by simp
  next
    case (invalid body msg)
    then have "read_text fsa p = Inr body" using rd by simp
    from process_file_invalid_json[OF this invalid(2)] process_file_invalid_json[OF invalid]
    show ?thesis by simp
  next
    case (not_object body v)
    then have "read_text fsa p = Inr body" using rd by simp
    from process_file_not_object_eq[OF this not_object(2,3)] process_file_not_object_eq[OF not_object]
    show ?thesis by simp
  next
    case (other_map body kvs)
    then have "read_text fsa p = Inr body" using rd by simp
    from process_file_other_map[OF this other_map(2,3)] process_file_other_map[OF other_map]
    show ?thesis by simp
  next
    case (candidate body kvs obj' n chg')
    have ra: "read_text fsa p = Inr body" using candidate(1) rd by simp
    have dry: "process_file env fs0 p root_dir id_map chg False backup mc =
        (Some (True, n, []), fs0, chg')"
      using process_file_candidate[OF candidate(1-4), of False backup] by simp
    show ?thesis
    proof (cases "n = 0")
      case True
      with process_file_candidate[OF ra candidate(2-4), of True backup] dry show ?thesis by simp
    next
      case False
      from pending_write_candidate[OF candidate(1-4) False] ws
      have co: "can_overwrite env fs0 backup p obj'" by (simp add: writes_succeed_def)
      from candidate(1) obtain f where f: "files fs0 p = Some f" "readable f"
        by (auto simp: read_text_def split: option.splits if_splits)
      from co f have w: "writable f" by (simp add: can_overwrite_def)
      from co f obtain s where s: "json_dumps env obj' = Dumps s" "fits fs0 p s"
        by (cases "json_dumps env obj'") (simp_all add: can_overwrite_def)
      have ne: "backup_path p \<noteq> p" by (rule backup_path_neq)
      have fa: "files fsa p = Some f" using f(1) same(1) by simp
      have fits_a: "\<And>q t. fits fsa q t = fits fs0 q t" using same(4) by (simp add: fits_def)
      have dump: "\<And>fs1. files fs1 p = Some f \<Longrightarrow> room fs1 = room fs0 \<Longrightarrow>
          \<exists>fs2. json_dump_minified env fs1 obj' p = Dumped fs2"
        using w s by (simp add: json_dump_minified_def open_w_def fits_def)
      have "\<exists>fs2. (case (if backup \<and> \<not> path_exists fsa (backup_path p)
                          then copy2 fsa p (backup_path p) else (None, fsa)) of
           (Some e, fs1) \<Rightarrow>
             (Some (False, 0, ''I/O error: '' @ os_strerror env e (backup_path p)), fs1, chg')
         | (None, fs1) \<Rightarrow>
             (case json_dump_minified env fs1 obj' p of
                DumpOSError e fs2 \<Rightarrow>
                  (Some (False, 0, ''I/O error: '' @ os_strerror env e p), fs2, chg')
              | DumpRaised fs2 \<Rightarrow> (None, fs2, chg')
              | Dumped fs2 \<Rightarrow> (Some (True, n, []), fs2, chg'))) = (Some (True, n, []), fs2, chg')"
      proof (cases "backup \<and> \<not> path_exists fsa (backup_path p)")
        case True
        then have nb: "files fs0 (backup_path p) = None" using same(2) by (simp add: path_exists_def)
        with co True f have "may_create fs0 (backup_path p)" "fits fs0 (backup_path p) (content f)"
          by (simp_all add: can_overwrite_def)
        then have mc: "may_create fsa (backup_path p)" "fits fsa (backup_path p) (content f)"
          using same(3) fits_a by simp_all
        let ?fs1 = "fsa\<lparr>files := (files fsa)(backup_path p \<mapsto> f),
                     oplog := oplog fsa @ [Copy p (backup_path p)]\<rparr>"
        have cp: "copy2 fsa p (backup_path p) = (None, ?fs1)"
          using fa f(2) same(2) nb mc by (simp add: copy2_def)
        have "files ?fs1 p = Some f" "room ?fs1 = room fs0" using fa ne same(4) by simp_all
        from dump[OF this] obtain fs2 where "json_dump_minified env ?fs1 obj' p = Dumped fs2" ..
        with True cp show ?thesis by simp
      next
        case False
        from dump[OF fa same(4)] obtain fs2 where "json_dump_minified env fsa obj' p = Dumped fs2" ..
        with False show ?thesis by auto
      qed
      then obtain fs2 where
        "process_file env fsa p root_dir id_map chg True backup mc = (Some (True, n, []), fs2, chg')"
        using process_file_candidate[OF ra candidate(2-4), of True backup] \<open>n \<noteq> 0\<close> by auto
      with dry show ?thesis by simp
    qed
  qed
qed

lemma run_step_fields:
  assumes "process_file env (st_fs st) p root_dir id_map (st_changes st) apply_changes backup mc =
             (Some (c, n, e), fs', chg')"
  shows "st_warnings (run_step env root_dir id_map apply_changes backup mc st p) =
      (if e \<noteq> [] then st_warnings st @ [''WARN: '' @ path_str env p @ '': '' @ e]
       else st_warnings st)"
    and "st_champions_seen (run_step env root_dir id_map apply_changes backup mc st p) =
      (if c then set_add (champion_name_from_path root_dir p) (st_champions_seen st)
       else st_champions_seen st)"
    and "st_raised (run_step env root_dir id_map apply_changes backup mc st p) = st_raised st"
  using process_file_result(3)[OF assms]
  by (cases c; cases "e = []"; simp add: run_step_def assms Let_def)+

lemma run_step_same_report:
  assumes "same_report sd sa"
    and "fst (process_file env (st_fs sa) p root_dir id_map (st_changes sa) True backup mc) =
           fst (process_file env (st_fs sd) p root_dir id_map (st_changes sd) False backup mc)"
    and "snd (snd (process_file env (st_fs sa) p root_dir id_map (st_changes sa) True backup mc)) =
           snd (snd (process_file env (st_fs sd) p root_dir id_map (st_changes sd) False backup mc))"
  shows "same_report (run_step env root_dir id_map False backup mc sd p)
           (run_step env root_dir id_map True backup mc sa p)"
proof -
  obtain r fsd chg' where
    pd: "process_file env (st_fs sd) p root_dir id_map (st_changes sd) False backup mc =
           (r, fsd, chg')" by (metis prod_cases3)
  obtain ta fsa' chga where
    pa: "process_file env (st_fs sa) p root_dir id_map (st_changes sa) True backup mc =
           (ta, fsa', chga)" by (metis prod_cases3)
  from assms(2,3) pd pa have pa': "process_file env (st_fs sa) p root_dir id_map (st_changes sa)
      True backup mc = (r, fsa', chg')" by simp
  show ?thesis
  proof (cases r)
    case None
    show ?thesis
      using assms(1)
      unfolding run_step_raises[OF pd[unfolded None]] run_step_raises[OF pa'[unfolded None]]
      by (simp add: same_report_def)
  next
    case (Some t)
    obtain c n e where t: "t = (c, n, e)" by (metis prod_cases3)
    note pd' = pd[unfolded Some t]
    note pa'' = pa'[unfolded Some t]
    show ?thesis
      using assms(1)
      by (simp add: same_report_def run_step_stats(1,2,4)[OF pd'] run_step_stats(1,2,4)[OF pa'']
          run_step_fields[OF pd'] run_step_fields[OF pa''])
  qed
qed

lemma run_loop_dry_apply:
  assumes "distinct located" "list_all json_name located"
    "list_all (writes_succeed env fs0 root_dir id_map mc backup) located"
    "same_report sd sa" "st_fs sd = fs0" "may_create (st_fs sa) = may_create fs0"
    "room (st_fs sa) = room fs0"
    "\<forall>q\<in>set located. files (st_fs sa) q = files fs0 q \<and>
        files (st_fs sa) (backup_path q) = files fs0 (backup_path q)"
  shows "same_report (run_loop env root_dir id_map False backup mc sd located)
           (run_loop env root_dir id_map True backup mc sa located)"
  using assms
proof (induction located arbitrary: sd sa)
  case Nil
  then show ?case by (simp add: run_loop_Nil)
next
  case (Cons p located)
  have raised: "st_raised sd = st_raised sa" using Cons.prems(4) by (simp add: same_report_def)
  show ?case
  proof (cases "st_raised sd")
    case True
    with raised Cons.prems(4) show ?thesis by (simp add: run_loop_raised)
  next
    case nr: False
    let ?sd' = "run_step env root_dir id_map False backup mc sd p"
    let ?sa' = "run_step env root_dir id_map True backup mc sa p"
    from Cons.prems have p: "json_name p" "writes_succeed env fs0 root_dir id_map mc backup p"
      "files (st_fs sa) p = files fs0 p" "files (st_fs sa) (backup_path p) = files fs0 (backup_path p)"
      by simp_all
    have chg: "st_changes sd = st_changes sa" using Cons.prems(4) by (simp add: same_report_def)
    from process_file_apply_as_dry[OF p(3,4) Cons.prems(6,7) p(2), of "st_changes sa"]
    have eq: "fst (process_file env (st_fs sa) p root_dir id_map (st_changes sa) True backup mc) =
             fst (process_file env (st_fs sd) p root_dir id_map (st_changes sd) False backup mc)"
      "snd (snd (process_file env (st_fs sa) p root_dir id_map (st_changes sa) True backup mc)) =
             snd (snd (process_file env (st_fs sd) p root_dir id_map (st_changes sd) False backup mc))"
      using Cons.prems(5) chg by simp_all
    have rep: "same_report ?sd' ?sa'"
      using Cons.prems(4) eq by (rule run_step_same_report)
    obtain ta fsa' chga where
      pa: "process_file env (st_fs sa) p root_dir id_map (st_changes sa) True backup mc =
             (ta, fsa', chga)" by (metis prod_cases3)
    have fsa': "st_fs ?sa' = fsa'" using run_step_fs(1)[OF pa] .
    have fsd: "st_fs ?sd' = fs0"
      using run_loop_dry_fs[of env root_dir id_map backup mc sd "[p]"] Cons.prems(5) nr
      by (simp add: run_loop_Cons run_loop_Nil)
    have mc': "may_create (st_fs ?sa') = may_create fs0"
      using process_file_frame(1)[OF pa] fsa' Cons.prems(6) by simp
    have rm': "room (st_fs ?sa') = room fs0"
      using process_file_frame(2)[OF pa] fsa' Cons.prems(7) by simp
    have frame: "\<forall>q\<in>set located. files (st_fs ?sa') q = files fs0 q \<and>
          files (st_fs ?sa') (backup_path q) = files fs0 (backup_path q)"
    proof
      fix q assume q: "q \<in> set located"
      with Cons.prems have qp: "q \<noteq> p" and jq: "json_name q"
        and keep: "files (st_fs sa) q = files fs0 q"
          "files (st_fs sa) (backup_path q) = files fs0 (backup_path q)"
        by (auto simp: list_all_iff)
      have a: "q \<noteq> backup_path p" using backup_path_not_json[OF jq] by metis
      have b: "backup_path q \<noteq> p" using backup_path_not_json[OF p(1)] by metis
      have c: "backup_path q \<noteq> backup_path p"
        using backup_path_inj[OF json_name_nonempty[OF jq] json_name_nonempty[OF p(1)]] qp by blast
      from process_file_frame(3)[OF pa qp a] process_file_frame(3)[OF pa b c] keep fsa'
      show "files (st_fs ?sa') q = files fs0 q \<and>
          files (st_fs ?sa') (backup_path q) = files fs0 (backup_path q)" by simp
    qed
    from Cons.prems(1,2,3) have rest: "distinct located" "list_all json_name located"
      "list_all (writes_succeed env fs0 root_dir id_map mc backup) located" by simp_all
    from Cons.IH[OF rest rep fsd mc' rm' frame] nr raised show ?thesis by (simp add: run_loop_Cons)
  qed
qed

lemma run_fix_report:
  "map_option report (fst (run_fix env fs located root_dir apply_changes backup mc)) =
     (let st = run_loop env root_dir (fst build_maps) apply_changes backup mc (init_state fs) located
      in if st_raised st then None
         else Some (st_stats st, st_changes st, st_modified_files st, st_warnings st))"
  by (simp add: run_fix_def Let_def report_def)

text \<open>
  C6 (amended). With \<^verbatim>\<open>apply_changes = False\<close>, \<^verbatim>\<open>process_file\<close> returns the file
  system as it was given, for every input: no file is written and no backup is made, and
  nothing is logged; so does the whole run. Let the located paths be pairwise different
  files with names ending in \<^verbatim>\<open>.json\<close>, and let every located file for which there is
  a value to write be one that the apply run can back up and overwrite: it is writable,
  the value is serialised without an error, the text fits, and, with backups enabled, the
  backup exists or can be created and filled. Then the dry run returns a result exactly
  when the apply run does, and the two results have the same statistics, ledger, modified
  files and warnings.
\<close>

theorem dry_run_reports_apply:
  "fst (snd (process_file env fs p root_dir id_map chg False backup mc)) = fs \<and>
   snd (run_fix env fs located root_dir False backup mc) = fs \<and>
   (distinct located \<and> list_all json_name located \<and>
    list_all (writes_succeed env fs root_dir (fst build_maps) mc backup) located \<longrightarrow>
      map_option report (fst (run_fix env fs located root_dir False backup mc)) =
        map_option report (fst (run_fix env fs located root_dir True backup mc)))"
proof (intro conjI impI)
  obtain r fs' chg' where
    pf: "process_file env fs p root_dir id_map chg False backup mc = (r, fs', chg')"
    by (metis prod_cases3)
  from process_file_dry_run[OF pf] pf
  show "fst (snd (process_file env fs p root_dir id_map chg False backup mc)) = fs" by simp
next
  show "snd (run_fix env fs located root_dir False backup mc) = fs"
    by (simp add: run_fix_def Let_def run_loop_dry_fs init_state_def)
next
  assume h: "distinct located \<and> list_all json_name located \<and>
    list_all (writes_succeed env fs root_dir (fst build_maps) mc backup) located"
  have "same_report
     (run_loop env root_dir (fst build_maps) False backup mc (init_state fs) located)
     (run_loop env root_dir (fst build_maps) True backup mc (init_state fs) located)"
    using h by (intro run_loop_dry_apply[where ?fs0.0=fs]) (simp_all add: same_report_def init_state_def)
  then show "map_option report (fst (run_fix env fs located root_dir False backup mc)) =
        map_option report (fst (run_fix env fs located root_dir True backup mc))"
    unfolding run_fix_report by (simp add: Let_def same_report_def)
qed

lemma two_files_writes_succeed:
  "list_all (writes_succeed sample_env two_files_fs root_dir0 (fst build_maps) ''SR'' True)
     [ahri_json, zed_json]"
proof -
  have a: "pending_write sample_env two_files_fs root_dir0 (fst build_maps) ''SR'' ahri_json =
      Some json_sr_fixed"
    using pending_write_candidate[OF two_files_read(1) sample_sr_walk(1) sample_map_sr
        sample_sr_walk(2)[of "[]"]] by simp
  have z: "pending_write sample_env two_files_fs root_dir0 (fst build_maps) ''SR'' zed_json = None"
    using two_files_read(2) sample_aram_other_map by (simp add: pending_write_def)
  have c: "can_overwrite sample_env two_files_fs True ahri_json json_sr_fixed"
    by (simp add: can_overwrite_def two_files_fs_def sample_fs_def rw_file_def sample_dumps
        fits_def)
  show ?thesis by (simp add: writes_succeed_def a z c)
qed

theorem dry_run_reports_apply_witness:
  "distinct [ahri_json, zed_json] \<and> list_all json_name [ahri_json, zed_json] \<and>
   list_all (writes_succeed sample_env two_files_fs root_dir0 (fst build_maps) ''SR'' True)
     [ahri_json, zed_json] \<and>
   snd (run_fix sample_env two_files_fs [ahri_json, zed_json] root_dir0 False True ''SR'') =
     two_files_fs \<and>
   map_option report
     (fst (run_fix sample_env two_files_fs [ahri_json, zed_json] root_dir0 False True ''SR'')) =
     Some (\<lparr>files_scanned = 2, files_candidate_sr = 1, files_modified = 1, ids_replaced = 1\<rparr>,
           [(''Ahri'', [(''3003'', 1)])], [ahri_json], []) \<and>
   map_option report
     (fst (run_fix sample_env two_files_fs [ahri_json, zed_json] root_dir0 True True ''SR'')) =
     Some (\<lparr>files_scanned = 2, files_candidate_sr = 1, files_modified = 1, ids_replaced = 1\<rparr>,
           [(''Ahri'', [(''3003'', 1)])], [ahri_json], [])"
proof -
  have d: "distinct [ahri_json, zed_json]" by (simp add: ahri_json_def zed_json_def)
  have j: "list_all json_name [ahri_json, zed_json]"
    by (simp add: json_name_def ahri_json_def zed_json_def)
  note w = two_files_writes_succeed
  note t = dry_run_reports_apply[of sample_env two_files_fs _ root_dir0 _ _ True "''SR''"
      "[ahri_json, zed_json]"]
  from t have fs: "snd (run_fix sample_env two_files_fs [ahri_json, zed_json] root_dir0 False True
      ''SR'') = two_files_fs" by blast
  from t d j w have eq: "map_option report (fst (run_fix sample_env two_files_fs
      [ahri_json, zed_json] root_dir0 False True ''SR'')) =
    map_option report (fst (run_fix sample_env two_files_fs [ahri_json, zed_json] root_dir0 True
      True ''SR''))" by blast
  have s: "map_option report (fst (run_fix sample_env two_files_fs [ahri_json, zed_json] root_dir0
      False True ''SR'')) =
     Some (\<lparr>files_scanned = 2, files_candidate_sr = 1, files_modified = 1, ids_replaced = 1\<rparr>,
           [(''Ahri'', [(''3003'', 1)])], [ahri_json], [])"
    unfolding run_fix_report by (simp add: Let_def two_files_dry_run)
  from d j w fs s eq show ?thesis by simp
qed

text \<open>
  The claim as stated fails on a read-only file that holds an old identifier: the dry run
  counts the file as a candidate and as modified and has no warning, while the apply run
  fails to write it, counts it neither as a candidate nor as modified, and has a warning.
\<close>

theorem dry_run_read_only_counterexample:
  "files read_only_fs ahri_json = Some (ro_file text_sr) \<and>
   map_option report
     (fst (run_fix sample_env read_only_fs [ahri_json] root_dir0 False False ''SR'')) =
     Some (\<lparr>files_scanned = 1, files_candidate_sr = 1, files_modified = 1, ids_replaced = 1\<rparr>,
           [(''Ahri'', [(''3003'', 1)])], [ahri_json], []) \<and>
   map_option report
     (fst (run_fix sample_env read_only_fs [ahri_json] root_dir0 True False ''SR'')) =
     Some (\<lparr>files_scanned = 1, files_candidate_sr = 0, files_modified = 0, ids_replaced = 0\<rparr>,
           [(''Ahri'', [(''3003'', 1)])], [],
           [''WARN: /Champions/Ahri/Recommended/a.json: I/O error: [Errno 13] Permission denied''])"
proof -
  let ?st0 = "init_state read_only_fs"
  have nr: "\<not> st_raised ?st0" by (simp add: init_state_def)
  have d: "map_option report
     (fst (run_fix sample_env read_only_fs [ahri_json] root_dir0 False False ''SR'')) =
     Some (\<lparr>files_scanned = 1, files_candidate_sr = 1, files_modified = 1, ids_replaced = 1\<rparr>,
           [(''Ahri'', [(''3003'', 1)])], [ahri_json], [])"
    unfolding run_fix_report
    using nr run_step_stats(1,2,4)[OF read_only_dry] run_step_fields(1,3)[OF read_only_dry]
    by (simp add: Let_def run_loop_Cons run_loop_Nil init_state_def)
  have a: "map_option report
     (fst (run_fix sample_env read_only_fs [ahri_json] root_dir0 True False ''SR'')) =
     Some (\<lparr>files_scanned = 1, files_candidate_sr = 0, files_modified = 0, ids_replaced = 0\<rparr>,
           [(''Ahri'', [(''3003'', 1)])], [],
           [''WARN: /Champions/Ahri/Recommended/a.json: I/O error: [Errno 13] Permission denied''])"
    unfolding run_fix_report
    using nr run_step_stats(1,2,4)[OF read_only_apply] run_step_fields(1,3)[OF read_only_apply]
    by (simp add: Let_def run_loop_Cons run_loop_Nil init_state_def sample_path_str)
  from read_only_sr(1) d a show ?thesis by blast
qed

text \<open>
  Where the serialiser raises, the hypothesis on the writes fails and so does the
  equality: on a writable file that holds an old identifier the dry run returns its
  result, and the apply run is left by the exception, after the file was emptied and the
  start of the new text written to it; no backup was asked for.
\<close>

lemma raising_env_sr_walk:
  "json_loads raising_env text_sr =
      Loads (JObject [(''map'', JString ''SR''),
       (''blocks'', JArray [JObject [(''items'',
          JArray [JObject [(''id'', JString ''3003'')], JObject [(''id'', JString ''9999'')]])]])])"
  "replace_ids_in_itemset raising_env
      (JObject [(''map'', JString ''SR''),
       (''blocks'', JArray [JObject [(''items'',
          JArray [JObject [(''id'', JString ''3003'')], JObject [(''id'', JString ''9999'')]])]])])
      (fst build_maps) [] (champion_name_from_path root_dir0 ahri_json) =
      (json_sr_fixed, 1, [(''Ahri'', [(''3003'', 1)])])"
proof -
  have "json_loads raising_env text_sr = json_loads sample_env text_sr"
    by (simp add: raising_env_def)
  then show "json_loads raising_env text_sr =
      Loads (JObject [(''map'', JString ''SR''),
       (''blocks'', JArray [JObject [(''items'',
          JArray [JObject [(''id'', JString ''3003'')], JObject [(''id'', JString ''9999'')]])]])])"
    by (simp add: sample_sr_walk(1))
  show "replace_ids_in_itemset raising_env
      (JObject [(''map'', JString ''SR''),
       (''blocks'', JArray [JObject [(''items'',
          JArray [JObject [(''id'', JString ''3003'')], JObject [(''id'', JString ''9999'')]])]])])
      (fst build_maps) [] (champion_name_from_path root_dir0 ahri_json) =
      (json_sr_fixed, 1, [(''Ahri'', [(''3003'', 1)])])"
    by (simp add: json_sr_fixed_def replace_ids_in_itemset_def replace_block_def
      replace_item_def Let_def py_str_def sample_id_map_3003 sample_id_map_9999 sample_champion
      ledger_bump_def)
qed

lemma encode_error_apply_run:
  "pending_write raising_env (sample_fs [(ahri_json, rw_file text_sr)]) root_dir0 (fst build_maps)
      ''SR'' ahri_json = Some json_sr_fixed \<and>
   \<not> writes_succeed raising_env (sample_fs [(ahri_json, rw_file text_sr)]) root_dir0
       (fst build_maps) ''SR'' False ahri_json \<and>
   map_option report
     (fst (run_fix raising_env (sample_fs [(ahri_json, rw_file text_sr)]) [ahri_json] root_dir0
             False False ''SR'')) =
     Some (\<lparr>files_scanned = 1, files_candidate_sr = 1, files_modified = 1, ids_replaced = 1\<rparr>,
           [(''Ahri'', [(''3003'', 1)])], [ahri_json], []) \<and>
   run_fix raising_env (sample_fs [(ahri_json, rw_file text_sr)]) [ahri_json] root_dir0
     True False ''SR'' =
     (None,
      \<lparr>files = [ahri_json \<mapsto> rw_file text_sr_partial], may_create = (\<lambda>p. True),
         room = (\<lambda>p. None), oplog = [Write ahri_json]\<rparr>)"
proof -
  let ?fs = "sample_fs [(ahri_json, rw_file text_sr)]"
  let ?st0 = "init_state ?fs"
  have r: "read_text ?fs ahri_json = Inr text_sr" by (rule sample_read)
  have nr: "\<not> st_raised ?st0" by (simp add: init_state_def)
  have pw: "pending_write raising_env ?fs root_dir0 (fst build_maps) ''SR'' ahri_json =
      Some json_sr_fixed"
    using pending_write_candidate[OF r raising_env_sr_walk(1) sample_map_sr raising_env_sr_walk(2)]
    by simp
  have ws: "\<not> writes_succeed raising_env ?fs root_dir0 (fst build_maps) ''SR'' False ahri_json"
  proof -
    have "json_dumps raising_env json_sr_fixed = DumpRaises text_sr_partial"
      by (simp add: raising_env_def)
    then have "\<not> can_overwrite raising_env ?fs False ahri_json json_sr_fixed"
      by (simp add: can_overwrite_def split: option.splits)
    then show ?thesis by (simp add: writes_succeed_def pw)
  qed
  have dry: "process_file raising_env (st_fs ?st0) ahri_json root_dir0 (fst build_maps)
      (st_changes ?st0) False False ''SR'' =
      (Some (True, 1, []), ?fs, [(''Ahri'', [(''3003'', 1)])])"
    using process_file_candidate[OF r raising_env_sr_walk(1) sample_map_sr raising_env_sr_walk(2),
        of False False]
    by (simp add: init_state_def)
  have app: "process_file raising_env (st_fs ?st0) ahri_json root_dir0 (fst build_maps)
      (st_changes ?st0) True False ''SR'' =
      (None,
       \<lparr>files = [ahri_json \<mapsto> rw_file text_sr_partial], may_create = (\<lambda>p. True),
          room = (\<lambda>p. None), oplog = [Write ahri_json]\<rparr>,
       [(''Ahri'', [(''3003'', 1)])])"
    using process_file_candidate[OF r raising_env_sr_walk(1) sample_map_sr raising_env_sr_walk(2),
        of True False]
    by (simp add: init_state_def json_dump_minified_def open_w_def set_content_def fits_def
        raising_env_def sample_fs_def rw_file_def)
  have d: "map_option report
     (fst (run_fix raising_env ?fs [ahri_json] root_dir0 False False ''SR'')) =
     Some (\<lparr>files_scanned = 1, files_candidate_sr = 1, files_modified = 1, ids_replaced = 1\<rparr>,
           [(''Ahri'', [(''3003'', 1)])], [ahri_json], [])"
    unfolding run_fix_report
    using nr run_step_stats(1,2,4)[OF dry] run_step_fields(1,3)[OF dry]
    by (simp add: Let_def run_loop_Cons run_loop_Nil init_state_def)
  have a: "run_fix raising_env ?fs [ahri_json] root_dir0 True False ''SR'' =
     (None,
      \<lparr>files = [ahri_json \<mapsto> rw_file text_sr_partial], may_create = (\<lambda>p. True),
         room = (\<lambda>p. None), oplog = [Write ahri_json]\<rparr>)"
    using nr run_step_raises[OF app]
    by (simp add: run_fix_def Let_def run_loop_Cons run_loop_Nil)
  from pw ws d a show ?thesis by blast
qed

section \<open>The rows of the report\<close>

lemma info_map_conv: "snd build_maps = map_of EMBEDDED_ITEM_MAP"
  by (simp add: build_maps_def)

lemma summary_row_fields:
  "champion (summary_row (snd build_maps) c kv) = c"
  "row_old_id (summary_row (snd build_maps) c kv) = fst kv"
  "count (summary_row (snd build_maps) c kv) = snd kv"
proof -
  show "champion (summary_row (snd build_maps) c kv) = c"
    and "count (summary_row (snd build_maps) c kv) = snd kv"
    by (simp_all add: summary_row_def split: option.splits)
  show "row_old_id (summary_row (snd build_maps) c kv) = fst kv"
    using embedded_lookup(1)[of "fst kv"]
    by (simp add: summary_row_def info_map_conv split: option.splits)
qed

lemma summary_row_content:
  "case snd build_maps (row_old_id (summary_row (snd build_maps) c kv)) of
     None \<Rightarrow>
       row_new_id (summary_row (snd build_maps) c kv) = ''?'' \<and>
       row_name_es (summary_row (snd build_maps) c kv) =
         ''ID '' @ row_old_id (summary_row (snd build_maps) c kv) \<and>
       row_name_en (summary_row (snd build_maps) c kv) =
         ''ID '' @ row_old_id (summary_row (snd build_maps) c kv)
   | Some info \<Rightarrow>
       row_new_id (summary_row (snd build_maps) c kv) = new_id info \<and>
       row_name_es (summary_row (snd build_maps) c kv) = name_es info \<and>
       row_name_en (summary_row (snd build_maps) c kv) = name_en info"
  unfolding summary_row_fields(2)
  by (simp add: summary_row_def split: option.splits)

text \<open>Rows of a concatenation of blocks, one block per key.\<close>

lemma sorted_map_const: "\<forall>x\<in>set xs. h x = v \<Longrightarrow> sorted (map h xs)"
  by (induction xs) auto

lemma sorted_concat_blocks:
  assumes "sorted (map f ks)" "\<And>k r. r \<in> set (g k) \<Longrightarrow> h r = f k"
  shows "sorted (map h (concat (map g ks)))"
  using assms(1)
proof (induction ks)
  case Nil
  show ?case by simp
next
  case (Cons k ks)
  then have ih: "sorted (map h (concat (map g ks)))" and le: "\<forall>k'\<in>set ks. f k \<le> f k'"
    by simp_all
  have "sorted (map h (g k))"
    using assms(2)[of _ k] by (intro sorted_map_const[of _ _ "f k"]) simp
  moreover have "\<forall>x\<in>set (map h (g k)). \<forall>y\<in>set (map h (concat (map g ks))). x \<le> y"
    using assms(2) le by auto
  ultimately show ?case using ih by (simp add: sorted_append)
qed

lemma filter_concat_blocks:
  assumes "distinct ks" "\<And>k r. r \<in> set (g k) \<Longrightarrow> ch r = k"
  shows "filter (\<lambda>r. ch r = c) (concat (map g ks)) = (if c \<in> set ks then g c else [])"
  using assms(1)
proof (induction ks)
  case Nil
  show ?case by simp
next
  case (Cons k ks)
  have all: "filter (\<lambda>r. ch r = k') (g k') = g k'" for k'
    using assms(2)[of _ k'] by (simp add: filter_id_conv)
  have none: "k' \<noteq> c \<Longrightarrow> filter (\<lambda>r. ch r = c) (g k') = []" for k'
    using assms(2)[of _ k'] by (auto simp: filter_empty_conv)
  from Cons show ?case
    by (cases "k = c") (auto simp: all none)
qed

lemma champion_rows_champion: "r \<in> set (champion_rows (snd build_maps) chg c) \<Longrightarrow> champion r = c"
  by (auto simp: champion_rows_def summary_row_fields)

lemma champion_rows_keys:
  "map (\<lambda>r. (- count r, row_old_id r)) (champion_rows (snd build_maps) chg c) =
     map (\<lambda>kv. (- snd kv, fst kv))
       (sort_key (\<lambda>kv. (- snd kv, fst kv)) (case map_of chg c of None \<Rightarrow> [] | Some m \<Rightarrow> m))"
  by (simp add: champion_rows_def summary_row_fields comp_def)

lemma champion_rows_entries:
  "set (map row_entry (champion_rows (snd build_maps) chg c)) =
     (\<lambda>kv. (c, fst kv, snd kv)) ` set (case map_of chg c of None \<Rightarrow> [] | Some m \<Rightarrow> m)"
  by (auto simp: champion_rows_def row_entry_def summary_row_fields image_iff)

lemma champion_rows_ids:
  "map row_old_id (champion_rows (snd build_maps) chg c) =
     map fst (sort_key (\<lambda>kv. (- snd kv, fst kv)) (case map_of chg c of None \<Rightarrow> [] | Some m \<Rightarrow> m))"
  by (simp add: champion_rows_def summary_row_fields comp_def)

lemma distinct_map_sort_key: "distinct (map g (sort_key f xs)) = distinct (map g xs)"
  by (simp add: distinct_map)

lemma distinct_concat_blocks:
  assumes "distinct ks" "\<And>k r. r \<in> set (g k) \<Longrightarrow> ch r = k"
    "\<And>k. k \<in> set ks \<Longrightarrow> distinct (map h (g k))"
  shows "distinct (map (\<lambda>r. (ch r, h r)) (concat (map g ks)))"
  using assms(1,3)
proof (induction ks)
  case Nil
  show ?case by simp
next
  case (Cons k ks)
  have eq: "map (\<lambda>r. (ch r, h r)) (g k) = map (\<lambda>r. (k, h r)) (g k)"
    using assms(2)[of _ k] by (intro map_cong) simp_all
  have "distinct (map (\<lambda>r. (k, h r)) (g k))"
    using Cons.prems(2)[of k] by (auto simp: distinct_map inj_on_def)
  then have blk: "distinct (map (\<lambda>r. (ch r, h r)) (g k))" by (simp only: eq)
  have rest: "distinct (map (\<lambda>r. (ch r, h r)) (concat (map g ks)))"
    using Cons by simp
  have disj: "set (map (\<lambda>r. (ch r, h r)) (g k)) \<inter>
        set (map (\<lambda>r. (ch r, h r)) (concat (map g ks))) = {}"
    using assms(2) Cons.prems(1) by fastforce
  from blk rest disj show ?case by simp
qed

lemma dict_ok_lookup:
  assumes "dict_ok chg"
  shows "(c, m) \<in> set chg \<longleftrightarrow> map_of chg c = Some m"
    and "map_of chg c = Some m \<Longrightarrow> distinct (map fst m)"
proof -
  from assms have d: "distinct (map fst chg)" by (simp add: dict_ok_def)
  then show iff: "(c, m) \<in> set chg \<longleftrightarrow> map_of chg c = Some m" by simp
  show "distinct (map fst m)" if "map_of chg c = Some m"
    using that assms iff by (auto simp: dict_ok_def list_all_iff)
qed

lemma flatten_changes_entries:
  assumes "dict_ok (changes result)"
  shows "set (map row_entry (flatten_changes env result)) = set (ledger_entries (changes result))"
proof (rule set_eqI)
  fix e
  let ?chg = "changes result"
  have "e \<in> set (map row_entry (flatten_changes env result)) \<longleftrightarrow>
      (\<exists>c\<in>set (map fst ?chg). e \<in> set (map row_entry (champion_rows (snd build_maps) ?chg c)))"
    by (auto simp: flatten_changes_def)
  also have "\<dots> \<longleftrightarrow> (\<exists>c\<in>set (map fst ?chg).
      e \<in> (\<lambda>kv. (c, fst kv, snd kv)) ` set (case map_of ?chg c of None \<Rightarrow> [] | Some m \<Rightarrow> m))"
    by (simp only: champion_rows_entries)
  also have "\<dots> \<longleftrightarrow> (\<exists>c m. (c, m) \<in> set ?chg \<and> e \<in> (\<lambda>kv. (c, fst kv, snd kv)) ` set m)"
  proof
    assume "\<exists>c\<in>set (map fst ?chg).
      e \<in> (\<lambda>kv. (c, fst kv, snd kv)) ` set (case map_of ?chg c of None \<Rightarrow> [] | Some m \<Rightarrow> m)"
    then obtain c where c: "e \<in> (\<lambda>kv. (c, fst kv, snd kv)) `
        set (case map_of ?chg c of None \<Rightarrow> [] | Some m \<Rightarrow> m)" by blast
    then obtain m where m: "map_of ?chg c = Some m" by (cases "map_of ?chg c") auto
    with c have "e \<in> (\<lambda>kv. (c, fst kv, snd kv)) ` set m" by simp
    moreover from m have "(c, m) \<in> set ?chg" by (rule map_of_SomeD)
    ultimately show "\<exists>c m. (c, m) \<in> set ?chg \<and> e \<in> (\<lambda>kv. (c, fst kv, snd kv)) ` set m"
      by blast
  next
    assume "\<exists>c m. (c, m) \<in> set ?chg \<and> e \<in> (\<lambda>kv. (c, fst kv, snd kv)) ` set m"
    then obtain c m where cm: "(c, m) \<in> set ?chg" "e \<in> (\<lambda>kv. (c, fst kv, snd kv)) ` set m"
      by blast
    from cm(1) have "map_of ?chg c = Some m" using dict_ok_lookup(1)[OF assms] by simp
    with cm(2) have "e \<in> (\<lambda>kv. (c, fst kv, snd kv)) `
        set (case map_of ?chg c of None \<Rightarrow> [] | Some m \<Rightarrow> m)" by simp
    moreover from cm(1) have "c \<in> set (map fst ?chg)" by force
    ultimately show "\<exists>c\<in>set (map fst ?chg).
      e \<in> (\<lambda>kv. (c, fst kv, snd kv)) ` set (case map_of ?chg c of None \<Rightarrow> [] | Some m \<Rightarrow> m)"
      by blast
  qed
  also have "\<dots> \<longleftrightarrow> e \<in> set (ledger_entries ?chg)"
    by (force simp: ledger_entries_def)
  finally show "e \<in> set (map row_entry (flatten_changes env result)) \<longleftrightarrow>
      e \<in> set (ledger_entries ?chg)" .
qed

lemma distinct_ledger_entries:
  assumes "dict_ok chg"
  shows "distinct (ledger_entries chg)"
proof -
  have "distinct (map (\<lambda>e. (fst e, fst (snd e)))
      (concat (map (\<lambda>c. map (\<lambda>kv. (c, fst kv, snd kv))
          (case map_of chg c of None \<Rightarrow> [] | Some m \<Rightarrow> m)) (map fst chg))))"
  proof (rule distinct_concat_blocks)
    show "distinct (map fst chg)" using assms by (simp add: dict_ok_def)
  next
    fix k r
    assume "r \<in> set (map (\<lambda>kv. (k, fst kv, snd kv))
        (case map_of chg k of None \<Rightarrow> [] | Some m \<Rightarrow> m))"
    then show "fst r = k" by auto
  next
    fix k
    assume "k \<in> set (map fst chg)"
    show "distinct (map (\<lambda>e. fst (snd e)) (map (\<lambda>kv. (k, fst kv, snd kv))
        (case map_of chg k of None \<Rightarrow> [] | Some m \<Rightarrow> m)))"
      using dict_ok_lookup(2)[OF assms, of k] by (simp add: comp_def split: option.splits)
  qed
  moreover have "concat (map (\<lambda>c. map (\<lambda>kv. (c, fst kv, snd kv))
          (case map_of chg c of None \<Rightarrow> [] | Some m \<Rightarrow> m)) (map fst chg)) = ledger_entries chg"
  proof -
    have "map (\<lambda>c. map (\<lambda>kv. (c, fst kv, snd kv))
          (case map_of chg c of None \<Rightarrow> [] | Some m \<Rightarrow> m)) (map fst chg) =
        map (\<lambda>cm. map (\<lambda>kv. (fst cm, fst kv, snd kv)) (snd cm)) chg"
    proof -
      have "map_of chg (fst x) = Some (snd x)" if "x \<in> set chg" for x
        using that dict_ok_lookup(1)[OF assms, of "fst x" "snd x"] by simp
      then show ?thesis by simp
    qed
    then show ?thesis unfolding ledger_entries_def by (rule arg_cong)
  qed
  ultimately show ?thesis by (simp add: distinct_map)
qed

lemma flatten_changes_distinct:
  assumes "dict_ok (changes result)"
  shows "distinct (map (\<lambda>r. (champion r, row_old_id r)) (flatten_changes env result))"
  unfolding flatten_changes_def
proof (rule distinct_concat_blocks)
  show "distinct (sort_key (casefold env) (map fst (changes result)))"
    using assms by (simp add: dict_ok_def)
next
  fix k r
  assume "r \<in> set (champion_rows (snd build_maps) (changes result) k)"
  then show "champion r = k" by (rule champion_rows_champion)
next
  fix k
  show "distinct (map row_old_id (champion_rows (snd build_maps) (changes result) k))"
    using dict_ok_lookup(2)[OF assms, of k]
    by (simp add: champion_rows_ids distinct_map_sort_key split: option.splits)
qed

lemma distinct_map_outer: "distinct (map (\<lambda>x. f (e x)) xs) \<Longrightarrow> distinct (map e xs)"
  by (induction xs) auto

lemma flatten_changes_length:
  assumes "dict_ok (changes result)"
  shows "length (flatten_changes env result) = length (ledger_entries (changes result))"
proof -
  let ?es = "map row_entry (flatten_changes env result)"
  have "distinct (map (\<lambda>r. (fst (row_entry r), fst (snd (row_entry r)))) (flatten_changes env result))"
    using flatten_changes_distinct[OF assms, of env] by (simp add: row_entry_def)
  then have d: "distinct ?es" by (rule distinct_map_outer)
  have "length (flatten_changes env result) = length ?es" by simp
  also have "\<dots> = card (set ?es)" using d by (rule distinct_card[symmetric])
  also have "\<dots> = card (set (ledger_entries (changes result)))"
    using flatten_changes_entries[OF assms, of env] by (rule arg_cong)
  also have "\<dots> = length (ledger_entries (changes result))"
    using distinct_ledger_entries[OF assms] by (rule distinct_card)
  finally show ?thesis .
qed

lemma flatten_changes_sorted_champion:
  "sorted (map (\<lambda>r. casefold env (champion r)) (flatten_changes env result))"
  unfolding flatten_changes_def
  by (rule sorted_concat_blocks[where f="casefold env"]) (simp_all add: champion_rows_champion)

lemma flatten_changes_sorted_count:
  assumes "dict_ok (changes result)"
  shows "sorted (map (\<lambda>r. (- count r, row_old_id r))
           (filter (\<lambda>r. champion r = c) (flatten_changes env result)))"
proof -
  have d: "distinct (sort_key (casefold env) (map fst (changes result)))"
    using assms by (simp add: dict_ok_def)
  have "filter (\<lambda>r. champion r = c) (flatten_changes env result) =
      (if c \<in> set (sort_key (casefold env) (map fst (changes result)))
       then champion_rows (snd build_maps) (changes result) c else [])"
    unfolding flatten_changes_def
    by (rule filter_concat_blocks[OF d]) (rule champion_rows_champion)
  then show ?thesis by (simp add: champion_rows_keys)
qed

lemma flatten_changes_content:
  assumes "r \<in> set (flatten_changes env result)"
  shows "case snd build_maps (row_old_id r) of
     None \<Rightarrow> row_new_id r = ''?'' \<and> row_name_es r = ''ID '' @ row_old_id r \<and>
              row_name_en r = ''ID '' @ row_old_id r
   | Some info \<Rightarrow> row_new_id r = new_id info \<and> row_name_es r = name_es info \<and>
              row_name_en r = name_en info"
proof -
  from assms obtain c kv where r: "r = summary_row (snd build_maps) c kv"
    by (auto simp: flatten_changes_def champion_rows_def)
  show ?thesis unfolding r by (rule summary_row_content)
qed

text \<open>
  C8 (amended). For a ledger that is a dictionary of dictionaries, \<^verbatim>\<open>flatten_changes\<close>
  returns exactly one row per pair of grouping key and old identifier of the ledger,
  carrying the count of that pair. The rows are in the order of the case-folded grouping
  keys, and the rows of one grouping key are in the order of descending count, then
  ascending identifier. A row whose identifier is in the embedded table carries the new
  identifier and the two names of the table; a row whose identifier is not in the table
  has the new identifier \<^verbatim>\<open>?\<close> and, as both display names, the text \<^verbatim>\<open>ID\<close>, a space and
  the identifier.
\<close>

theorem flatten_changes_rows:
  assumes "dict_ok (changes result)"
  shows
    "distinct (map (\<lambda>r. (champion r, row_old_id r)) (flatten_changes env result)) \<and>
     set (map row_entry (flatten_changes env result)) = set (ledger_entries (changes result)) \<and>
     length (flatten_changes env result) = length (ledger_entries (changes result)) \<and>
     sorted (map (\<lambda>r. casefold env (champion r)) (flatten_changes env result)) \<and>
     (\<forall>c. sorted (map (\<lambda>r. (- count r, row_old_id r))
             (filter (\<lambda>r. champion r = c) (flatten_changes env result)))) \<and>
     (\<forall>r\<in>set (flatten_changes env result).
        case snd build_maps (row_old_id r) of
          None \<Rightarrow> row_new_id r = ''?'' \<and> row_name_es r = ''ID '' @ row_old_id r \<and>
                   row_name_en r = ''ID '' @ row_old_id r
        | Some info \<Rightarrow> row_new_id r = new_id info \<and> row_name_es r = name_es info \<and>
                   row_name_en r = name_en info)"
proof (intro conjI allI ballI)
  show "distinct (map (\<lambda>r. (champion r, row_old_id r)) (flatten_changes env result))"
    by (rule flatten_changes_distinct[OF assms])
  show "set (map row_entry (flatten_changes env result)) = set (ledger_entries (changes result))"
    by (rule flatten_changes_entries[OF assms])
  show "length (flatten_changes env result) = length (ledger_entries (changes result))"
    by (rule flatten_changes_length[OF assms])
  show "sorted (map (\<lambda>r. casefold env (champion r)) (flatten_changes env result))"
    by (rule flatten_changes_sorted_champion)
next
  fix c
  show "sorted (map (\<lambda>r. (- count r, row_old_id r))
             (filter (\<lambda>r. champion r = c) (flatten_changes env result)))"
    by (rule flatten_changes_sorted_count[OF assms])
next
  fix r
  assume "r \<in> set (flatten_changes env result)"
  then show "case snd build_maps (row_old_id r) of
          None \<Rightarrow> row_new_id r = ''?'' \<and> row_name_es r = ''ID '' @ row_old_id r \<and>
                   row_name_en r = ''ID '' @ row_old_id r
        | Some info \<Rightarrow> row_new_id r = new_id info \<and> row_name_es r = name_es info \<and>
                   row_name_en r = name_en info"
    by (rule flatten_changes_content)
qed

lemma sample_result_rows:
  "map row_entry (flatten_changes sample_env sample_result) =
     [(''ahri'', ''2065'', 1), (''ahri'', ''3110'', 1), (''Zed'', ''3110'', 2), (''Zed'', ''3003'', 1)]"
  by (simp add: flatten_changes_def champion_rows_def sample_result_def sample_env_def
      casefold_ascii_def row_entry_def summary_row_fields)

theorem flatten_changes_rows_witness:
  "dict_ok (changes sample_result) \<and>
   map row_entry (flatten_changes sample_env sample_result) =
     [(''ahri'', ''2065'', 1), (''ahri'', ''3110'', 1), (''Zed'', ''3110'', 2), (''Zed'', ''3003'', 1)] \<and>
   length (flatten_changes sample_env sample_result) = 4 \<and>
   sorted (map (\<lambda>r. casefold sample_env (champion r)) (flatten_changes sample_env sample_result)) \<and>
   sorted (map (\<lambda>r. (- count r, row_old_id r))
     (filter (\<lambda>r. champion r = ''Zed'') (flatten_changes sample_env sample_result)))"
proof -
  have ok: "dict_ok (changes sample_result)"
    by (simp add: dict_ok_def sample_result_def)
  note t = flatten_changes_rows[OF ok, of sample_env]
  from t have "length (flatten_changes sample_env sample_result) =
      length (ledger_entries (changes sample_result))" by blast
  then have len: "length (flatten_changes sample_env sample_result) = 4"
    by (simp add: ledger_entries_def sample_result_def)
  from t have s1: "sorted (map (\<lambda>r. casefold sample_env (champion r))
      (flatten_changes sample_env sample_result))" by blast
  from t have s2: "sorted (map (\<lambda>r. (- count r, row_old_id r))
     (filter (\<lambda>r. champion r = ''Zed'') (flatten_changes sample_env sample_result)))" by blast
  from ok sample_result_rows len s1 s2 show ?thesis by blast
qed

text \<open>
  The claim as stated fails on a ledger identifier that the table does not have: the
  display names of the row are \<^verbatim>\<open>ID 9999\<close>, not the bare identifier \<^verbatim>\<open>9999\<close>.
\<close>

theorem flatten_changes_fallback_counterexample:
  "snd build_maps ''9999'' = None \<and>
   flatten_changes sample_env fallback_result =
     [\<lparr>champion = ''Ahri'', row_old_id = ''9999'', row_new_id = ''?'',
       row_name_es = ''ID 9999'', row_name_en = ''ID 9999'', count = 1\<rparr>] \<and>
   ''ID 9999'' \<noteq> ''9999''"
proof -
  have n: "snd build_maps ''9999'' = None"
    by (simp add: info_map_conv EMBEDDED_ITEM_MAP_def)
  have "flatten_changes sample_env fallback_result =
     [\<lparr>champion = ''Ahri'', row_old_id = ''9999'', row_new_id = ''?'',
       row_name_es = ''ID 9999'', row_name_en = ''ID 9999'', count = 1\<rparr>]"
    by (simp add: flatten_changes_def champion_rows_def fallback_result_def summary_row_def n)
  with n show ?thesis by simp
qed

end
